theory Spec2Isabelle
  imports Complex_Main
begin

section \<open>Latent previews of blissful\_tuner: a shallow embedding\<close>

text \<open>
  The embedding follows \<^verbatim>\<open>src/blissful_tuner/latent_preview.py\<close> (class
  \<^verbatim>\<open>LatentPreviewer\<close>) and \<^verbatim>\<open>src/blissful_tuner/prompt_management.py\<close>
  (function \<^verbatim>\<open>wildcard_replace\<close>).

  Tensor elements are real numbers: the arithmetic of the source is read as exact
  arithmetic, so rounding, infinities and NaN inputs of the floating-point formats are
  not part of the model. The one place where the source produces NaN from finite
  inputs (the standard deviation of a one-element tensor) is modelled: the normalizer
  then returns a tensor whose one element is NaN, and the preview goes on with it.
\<close>

subsection \<open>Outcomes\<close>

text \<open>
  A raised exception is the left injection of a sum. \<open>AVError\<close> stands for an error
  of the video library.
\<close>

datatype error =
    ValueError
  | IndexError
  | RuntimeError
  | FileNotFoundError
  | NotImplementedError
  | AttributeError
  | AVError

subsection \<open>Precisions\<close>

text \<open>The floating-point precisions of the tensor library, with their widths in bits.\<close>

datatype dtype =
    float8_e4m3fn
  | float8_e5m2
  | float8_e4m3fnuz
  | float8_e5m2fnuz
  | float16
  | bfloat16
  | float32
  | float64

fun dtype_bits :: "dtype \<Rightarrow> nat" where
  "dtype_bits float8_e4m3fn = 8"
| "dtype_bits float8_e5m2 = 8"
| "dtype_bits float8_e4m3fnuz = 8"
| "dtype_bits float8_e5m2fnuz = 8"
| "dtype_bits float16 = 16"
| "dtype_bits bfloat16 = 16"
| "dtype_bits float32 = 32"
| "dtype_bits float64 = 64"

subsection \<open>Tensors\<close>

text \<open>
  A tensor is its shape and its elements in row-major order, as the tensor library
  stores a contiguous tensor. A well-formed tensor has as many elements as its shape
  says.
\<close>

record tensor =
  shape :: "nat list"
  vals :: "real list"

definition wf_tensor :: "tensor \<Rightarrow> bool" where
  "wf_tensor t = (length (vals t) = prod_list (shape t))"

text \<open>
  What the normalizer returns: a tensor of real values or, when the residual has exactly
  one element, the tensor of as many axes, all of extent 1, whose element is NaN.
\<close>

datatype normalized = Finite tensor | OneNaN nat

text \<open>Decoded frames are nested lists: frame, channel, row, column.\<close>

type_synonym image = "real list list"
type_synonym frames = "image list list"

subsection \<open>The previewer and its construction\<close>

datatype decode_mode = Latent2rgb | Taehv

text \<open>
  The learned decoder (\<^verbatim>\<open>TAEHV\<close>) and the checkpoint loader are not part of the
  sources at hand: a loaded model is the function its \<^verbatim>\<open>decode_video\<close> computes, from
  normalized latents laid out batch, frame, channel, row, column to decoded frames with a
  leading batch axis, and the loader is a parameter of the construction.
\<close>

type_synonym taehv_model = "normalized \<Rightarrow> error + frames list"

record args =
  preview_vae :: "string option"
  args_fps :: int
  args_device :: string

record previewer =
  mode :: decode_mode
  self_args :: args
  model_type :: string
  original_latents :: tensor
  timesteps_percent :: "real list"
  device :: string
  dtype :: dtype
  taehv :: "taehv_model option"
  scale_factor :: "nat option"
  fps :: int

text \<open>\<^verbatim>\<open>timesteps / 1000\<close>: every raw timestep divided by the constant 1000.\<close>

definition timesteps_percent_of :: "real list \<Rightarrow> real list" where
  "timesteps_percent_of timesteps = map (\<lambda>t. t / 1000) timesteps"

text \<open>\<^verbatim>\<open>dtype if dtype != torch.float8_e4m3fn else torch.float16\<close>.\<close>

definition working_dtype :: "dtype \<Rightarrow> dtype" where
  "working_dtype d = (if d \<noteq> float8_e4m3fn then d else float16)"

text \<open>
  \<^verbatim>\<open>int(args.fps / 4)\<close>: true division, then truncation towards zero.
\<close>

definition quarter_fps :: "int \<Rightarrow> int" where
  "quarter_fps r = (if 0 \<le> r then r div 4 else - ((- r) div 4))"

definition LatentPreviewer_init ::
  "(string \<Rightarrow> error + taehv_model) \<Rightarrow> args \<Rightarrow> tensor \<Rightarrow> real list \<Rightarrow> string \<Rightarrow> dtype \<Rightarrow> string
     \<Rightarrow> error + previewer" where
  "LatentPreviewer_init load_taehv a original timesteps dev dt mtype =
     (case preview_vae a of
        Some path \<Rightarrow>
          (case load_taehv path of
             Inl e \<Rightarrow> Inl e
           | Inr model \<Rightarrow>
               Inr \<lparr>mode = Taehv, self_args = a, model_type = mtype,
                    original_latents = original,
                    timesteps_percent = timesteps_percent_of timesteps,
                    device = dev, dtype = working_dtype dt,
                    taehv = Some model, scale_factor = None, fps = args_fps a\<rparr>)
      | None \<Rightarrow>
          Inr \<lparr>mode = Latent2rgb, self_args = a, model_type = mtype,
               original_latents = original,
               timesteps_percent = timesteps_percent_of timesteps,
               device = dev, dtype = working_dtype dt,
               taehv = None, scale_factor = Some 8, fps = quarter_fps (args_fps a)\<rparr>)"

subsection \<open>Indexing, broadcasting and statistics of the tensor library\<close>

text \<open>
  Indexing a one-dimensional tensor with an integer: a negative index counts from the
  end, and an index outside the tensor raises \<^verbatim>\<open>IndexError\<close>.
\<close>

definition py_index :: "'a list \<Rightarrow> int \<Rightarrow> error + 'a" where
  "py_index xs i =
     (if 0 \<le> i \<and> i < int (length xs) then Inr (xs ! nat i)
      else if i < 0 \<and> - int (length xs) \<le> i then Inr (xs ! nat (int (length xs) + i))
      else Inl IndexError)"

text \<open>
  Broadcasting: the shapes are aligned at their last axes, the shorter one is padded
  with leading axes of extent 1, and two extents fit when they are equal or one of them
  is 1. \<open>expand\<close> repeats the elements of an operand along the axes where its extent
  is 1.
\<close>

definition pad_shape :: "nat \<Rightarrow> nat list \<Rightarrow> nat list" where
  "pad_shape n s = replicate (n - length s) 1 @ s"

definition broadcast_shapes :: "nat list \<Rightarrow> nat list \<Rightarrow> nat list option" where
  "broadcast_shapes a b =
     (let n = max (length a) (length b); a' = pad_shape n a; b' = pad_shape n b
      in if list_all2 (\<lambda>x y. x = y \<or> x = 1 \<or> y = 1) a' b'
         then Some (map2 (\<lambda>x y. if x = 1 then y else x) a' b')
         else None)"

fun expand :: "nat list \<Rightarrow> nat list \<Rightarrow> real list \<Rightarrow> real list" where
  "expand (d # ds) (e # es) xs =
     (if e = d
      then concat (map (\<lambda>i. expand ds es (take (prod_list es) (drop (i * prod_list es) xs)))
                       [0..<d])
      else concat (replicate d (expand ds es xs)))"
| "expand _ _ xs = xs"

definition tensor_sub :: "tensor \<Rightarrow> tensor \<Rightarrow> error + tensor" where
  "tensor_sub a b =
     (case broadcast_shapes (shape a) (shape b) of
        None \<Rightarrow> Inl RuntimeError
      | Some s \<Rightarrow>
          Inr \<lparr>shape = s,
               vals = map2 (\<lambda>x y. x - y)
                        (expand s (pad_shape (length s) (shape a)) (vals a))
                        (expand s (pad_shape (length s) (shape b)) (vals b))\<rparr>)"

definition tensor_scale :: "tensor \<Rightarrow> real \<Rightarrow> tensor" where
  "tensor_scale t c = \<lparr>shape = shape t, vals = map (\<lambda>x. x * c) (vals t)\<rparr>"

text \<open>
  \<^verbatim>\<open>mean()\<close> and \<^verbatim>\<open>std()\<close> over all elements; the standard deviation is the
  library's default, with Bessel's correction (division by \<open>n - 1\<close>).
\<close>

definition mean :: "real list \<Rightarrow> real" where
  "mean xs = sum_list xs / real (length xs)"

definition std :: "real list \<Rightarrow> real" where
  "std xs = sqrt (sum_list (map (\<lambda>x. (x - mean xs)\<^sup>2) xs) / real (length xs - 1))"

subsection \<open>The noise normalizer\<close>

text \<open>
  \<^verbatim>\<open>subtract_original_and_normalize\<close>. For a residual of exactly one element the
  source divides by \<open>NaN + 1e-5\<close> (the corrected standard deviation of one value) and
  returns a tensor of the residual's shape whose element is NaN. A tensor without
  elements is returned as it is.
\<close>

definition subtract_original_and_normalize :: "previewer \<Rightarrow> tensor \<Rightarrow> int \<Rightarrow> error + normalized" where
  "subtract_original_and_normalize self noisy_latents current_step =
     (case py_index (timesteps_percent self) current_step of
        Inl e \<Rightarrow> Inl e
      | Inr noise_remaining \<Rightarrow>
          (case tensor_sub noisy_latents (tensor_scale (original_latents self) noise_remaining) of
             Inl e \<Rightarrow> Inl e
           | Inr denoisy_latents \<Rightarrow>
               if length (vals denoisy_latents) = 1
               then Inr (OneNaN (length (shape denoisy_latents)))
               else Inr (Finite \<lparr>shape = shape denoisy_latents,
                                 vals = map (\<lambda>x. (x - mean (vals denoisy_latents))
                                                   / (std (vals denoisy_latents) + 0.00001))
                                            (vals denoisy_latents)\<rparr>)))"

subsection \<open>The linear-projection decoder\<close>

definition hunyuan_rgb_factors :: "real list list" where
  "hunyuan_rgb_factors =
     [[-0.0395, -0.0331,  0.0445],
      [ 0.0696,  0.0795,  0.0518],
      [ 0.0135, -0.0945, -0.0282],
      [ 0.0108, -0.0250, -0.0765],
      [-0.0209,  0.0032,  0.0224],
      [-0.0804, -0.0254, -0.0639],
      [-0.0991,  0.0271, -0.0669],
      [-0.0646, -0.0422, -0.0400],
      [-0.0696, -0.0595, -0.0894],
      [-0.0799, -0.0208, -0.0375],
      [ 0.1166,  0.1627,  0.0962],
      [ 0.1165,  0.0432,  0.0407],
      [-0.2315, -0.1920, -0.1355],
      [-0.0270,  0.0401, -0.0821],
      [-0.0616, -0.0997, -0.0727],
      [ 0.0249, -0.0469, -0.1703]]"

definition hunyuan_bias :: "real list" where
  "hunyuan_bias = [0.0259, -0.0192, -0.0761]"

definition wan_rgb_factors :: "real list list" where
  "wan_rgb_factors =
     [[-0.1299, -0.1692,  0.2932],
      [ 0.0671,  0.0406,  0.0442],
      [ 0.3568,  0.2548,  0.1747],
      [ 0.0372,  0.2344,  0.1420],
      [ 0.0313,  0.0189, -0.0328],
      [ 0.0296, -0.0956, -0.0665],
      [-0.3477, -0.4059, -0.2925],
      [ 0.0166,  0.1902,  0.1975],
      [-0.0412,  0.0267, -0.1364],
      [-0.1293,  0.0740,  0.1636],
      [ 0.0680,  0.3019,  0.1128],
      [ 0.0032,  0.0581,  0.0639],
      [-0.1251,  0.0927,  0.1699],
      [ 0.0060, -0.0633,  0.0005],
      [ 0.3477,  0.2275,  0.2950],
      [ 0.1984,  0.0913,  0.1861]]"

definition wan_bias :: "real list" where
  "wan_bias = [-0.1835, -0.0868, -0.3360]"

definition model_params :: "(string \<times> real list list \<times> real list) list" where
  "model_params =
     [(''hunyuan'', hunyuan_rgb_factors, hunyuan_bias),
      (''wan'', wan_rgb_factors, wan_bias)]"

text \<open>
  The element of a five-dimensional tensor at batch \<open>b\<close>, channel \<open>c\<close>, frame
  \<open>t\<close>, row \<open>h\<close> and column \<open>w\<close>, for the extents \<open>C\<close>, \<open>F\<close>, \<open>H\<close>, \<open>W\<close> of
  the last four axes.
\<close>

definition at5 :: "real list \<Rightarrow> nat \<Rightarrow> nat \<Rightarrow> nat \<Rightarrow> nat \<Rightarrow> nat \<Rightarrow> nat \<Rightarrow> nat \<Rightarrow> nat \<Rightarrow> nat \<Rightarrow> real" where
  "at5 xs C F H W b c t h w = xs ! ((((b * C + c) * F + t) * H + h) * W + w)"

text \<open>
  \<^verbatim>\<open>latents[:, :, t, :, :][0].permute(1, 2, 0)\<close>: frame \<open>t\<close> of the first batch
  element, laid out row, column, channel.
\<close>

definition extracted :: "real list \<Rightarrow> nat \<Rightarrow> nat \<Rightarrow> nat \<Rightarrow> nat \<Rightarrow> nat \<Rightarrow> real list list list" where
  "extracted xs C F H W t =
     map (\<lambda>h. map (\<lambda>w. map (\<lambda>c. at5 xs C F H W 0 c t h w) [0..<C]) [0..<W]) [0..<H]"

text \<open>
  \<^verbatim>\<open>torch.nn.functional.linear(x, weight, bias)\<close> on the last axis: one output per
  row of the weight.
\<close>

definition linear :: "real list \<Rightarrow> real list list \<Rightarrow> real list \<Rightarrow> real list" where
  "linear x weight bias = map2 (\<lambda>row b. sum_list (map2 (\<lambda>a k. a * k) x row) + b) weight bias"

text \<open>
  The frames stacked along a new leading axis (frame, row, column, colour), before the
  rescale. The tensor library raises \<^verbatim>\<open>IndexError\<close> for too many indices and for
  index 0 of an empty batch axis, and \<^verbatim>\<open>RuntimeError\<close> for a \<^verbatim>\<open>permute\<close>
  with the wrong number of axes, a channel count that does not fit the weight, a
  \<^verbatim>\<open>stack\<close> of no frames, and a \<^verbatim>\<open>min()\<close> over no elements.
\<close>

definition stack_frames ::
  "real list list \<Rightarrow> real list \<Rightarrow> tensor \<Rightarrow> error + real list list list list" where
  "stack_frames rgb_factors bias latents =
     (case shape latents of
        [B, C, F, H, W] \<Rightarrow>
          if F = 0 then Inl RuntimeError
          else if B = 0 then Inl IndexError
          else if C \<noteq> length rgb_factors then Inl RuntimeError
          else if H = 0 \<or> W = 0 then Inl RuntimeError
          else Inr (map (\<lambda>t. map (map (\<lambda>px. linear px (transpose rgb_factors) bias))
                                  (extracted (vals latents) C F H W t))
                        [0..<F])
      | s \<Rightarrow>
          if length s < 3 then Inl IndexError
          else if s ! 2 = 0 then Inl RuntimeError
          else if length s < 5 then Inl IndexError
          else if s ! 0 = 0 then Inl IndexError
          else Inl RuntimeError)"

definition flat4 :: "'a list list list list \<Rightarrow> 'a list" where
  "flat4 x = concat (concat (concat x))"

definition map4 :: "('a \<Rightarrow> 'b) \<Rightarrow> 'a list list list list \<Rightarrow> 'b list list list list" where
  "map4 f x = map (map (map (map f))) x"

text \<open>
  The rescale to [0,1] with the minimum and maximum over all elements of all frames;
  skipped when the maximum does not exceed the minimum.
\<close>

definition normalize_01 :: "real list list list list \<Rightarrow> real list list list list" where
  "normalize_01 latent_images =
     (let latent_images_min = Min (set (flat4 latent_images));
          latent_images_max = Max (set (flat4 latent_images))
      in if latent_images_max > latent_images_min
         then map4 (\<lambda>x. (x - latent_images_min) / (latent_images_max - latent_images_min))
                latent_images
         else latent_images)"

text \<open>\<^verbatim>\<open>permute(0, 3, 1, 2)\<close>: from frame, row, column, colour to frame, colour, row, column.\<close>

definition permute_0312 :: "real list list list list \<Rightarrow> frames" where
  "permute_0312 x =
     map (\<lambda>fr. map (\<lambda>c. map (\<lambda>row. map (\<lambda>px. px ! c) row) fr) [0..<3]) x"

definition decode_latent2rgb :: "previewer \<Rightarrow> tensor \<Rightarrow> int \<Rightarrow> error + frames" where
  "decode_latent2rgb self latents current_step =
     (case map_of model_params (model_type self) of
        None \<Rightarrow> Inl ValueError
      | Some (latent_rgb_factors, latent_rgb_factors_bias) \<Rightarrow>
          (case stack_frames latent_rgb_factors latent_rgb_factors_bias latents of
             Inl e \<Rightarrow> Inl e
           | Inr latent_images \<Rightarrow> Inr (permute_0312 (normalize_01 latent_images))))"

text \<open>
  The schedule as the specification words it: every raw value divided by the largest
  raw value. It is compared with \<open>timesteps_percent_of\<close> below.
\<close>

definition spec_timestep_schedule :: "real list \<Rightarrow> real list" where
  "spec_timestep_schedule timesteps = map (\<lambda>t. t / Max (set timesteps)) timesteps"

text \<open>
  A previewer in linear-projection mode, as the constructor builds it when no learned
  decoder is configured; the examples below use it.
\<close>

definition latent2rgb_previewer :: "tensor \<Rightarrow> real list \<Rightarrow> string \<Rightarrow> int \<Rightarrow> previewer" where
  "latent2rgb_previewer original schedule family rate =
     \<lparr>mode = Latent2rgb,
      self_args = \<lparr>preview_vae = None, args_fps = rate, args_device = ''cpu''\<rparr>,
      model_type = family, original_latents = original, timesteps_percent = schedule,
      device = ''cpu'', dtype = float32, taehv = None, scale_factor = Some 8,
      fps = quarter_fps rate\<rparr>"

text \<open>Every pixel of a stack of frames (frame, row, column, colour) has three components.\<close>

definition pixels3 :: "real list list list list \<Rightarrow> bool" where
  "pixels3 x = (\<forall>fr \<in> set x. \<forall>row \<in> set fr. \<forall>px \<in> set row. length px = 3)"

subsection \<open>The frame sink: \<open>write_video\<close>\<close>

text \<open>
  \<open>str.replace(old, new)\<close> of Python: every non-overlapping occurrence, left to right.
\<close>

function str_replace :: "string \<Rightarrow> string \<Rightarrow> string \<Rightarrow> string" where
  "str_replace old new s =
     (if old = [] then new @ concat (map (\<lambda>c. c # new) s)
      else if s = [] then []
      else if take (length old) s = old then new @ str_replace old new (drop (length old) s)
      else hd s # str_replace old new (tl s))"
  by pat_completeness auto
termination
  by (relation "measure (\<lambda>(old, new, s). length s)") (auto simp: neq_Nil_conv)

declare str_replace.simps [simp del]


text \<open>
  A frame handed to PIL or to PyAV: \<open>frame.clamp(0, 1).mul(255).byte()\<close> permuted from
  (3, H, W) to (H, W, 3); \<open>.byte()\<close> truncates.
\<close>

type_synonym rgb24 = "nat list list list"

definition to_byte :: "real \<Rightarrow> nat" where
  "to_byte x = nat \<lfloor>max 0 (min 1 x) * 255\<rfloor>"

definition frame_rgb24 :: "image list \<Rightarrow> rgb24" where
  "frame_rgb24 frame =
     (case frame of
        [] \<Rightarrow> []
      | channel # _ \<Rightarrow>
          map (\<lambda>h. map (\<lambda>w. map (\<lambda>ch. to_byte (ch ! h ! w)) frame)
                        [0..<length (channel ! h)])
              [0..<length channel])"

text \<open>
  The libx264 stream is a parameter of the model: it may hold back up to \<open>lookahead\<close>
  frames before it emits their packets, and \<open>rejects\<close> tells the frames on which
  \<open>stream.encode\<close> raises.  \<open>stream.encode()\<close> with no frame flushes what is held back.
  A packet is identified with the frame it encodes.
\<close>

datatype packet = Packet rgb24

record encoder =
  lookahead :: nat
  rejects :: "rgb24 \<Rightarrow> bool"

definition stream_encode ::
  "encoder \<Rightarrow> rgb24 list \<Rightarrow> rgb24 \<Rightarrow> error + packet list \<times> rgb24 list" where
  "stream_encode enc pending video_frame =
     (if rejects enc video_frame then Inl AVError
      else let queue = pending @ [video_frame]; n = length queue - lookahead enc
           in Inr (map Packet (take n queue), drop n queue))"

definition stream_flush :: "rgb24 list \<Rightarrow> packet list" where
  "stream_flush pending = map Packet pending"

text \<open>
  The file system as far as \<open>write_video\<close> writes to it: the still images saved, and the
  containers opened by \<open>av.open\<close> with the packets muxed into them and whether
  \<open>container.close()\<close> was reached.
\<close>

record container =
  target :: string
  codec :: string
  rate :: int
  pix_fmt :: string
  width :: nat
  height :: nat
  packets :: "packet list"
  closed :: bool

record world =
  images :: "(string \<times> rgb24) list"
  containers :: "container list"

fun encode_frames ::
  "encoder \<Rightarrow> rgb24 list \<Rightarrow> container \<Rightarrow> frames \<Rightarrow> (error + rgb24 list) \<times> container" where
  "encode_frames enc pending c [] = (Inr pending, c)"
| "encode_frames enc pending c (frame # rest) =
     (case stream_encode enc pending (frame_rgb24 frame) of
        Inl e \<Rightarrow> (Inl e, c)
      | Inr (emitted, pending') \<Rightarrow>
          encode_frames enc pending' (c\<lparr>packets := packets c @ emitted\<rparr>) rest)"

text \<open>
  \<open>write_video\<close> (lines 75--109), with libraries that raise in \<open>stream.encode(video_frame)\<close>
  only; \<open>write_video_raising\<close> below lets the other calls raise as well.  There is no
  handler around the loop, so the exception leaves the function with the container as it is.
\<close>

definition write_video ::
  "previewer \<Rightarrow> encoder \<Rightarrow> frames \<Rightarrow> nat \<Rightarrow> nat \<Rightarrow> string \<Rightarrow> world \<Rightarrow> (error + unit) \<times> world" where
  "write_video self enc frames w h tgt wld =
     (if length frames = 1
      then (Inr (),
            wld\<lparr>images := images wld
                   @ [(str_replace ''.mp4'' ''.png'' tgt, frame_rgb24 (frames ! 0))]\<rparr>)
      else
        let opened = \<lparr>target = str_replace ''.png'' ''.mp4'' tgt, codec = ''libx264'',
                      rate = fps self, pix_fmt = ''yuv420p'', width = w, height = h,
                      packets = [], closed = False\<rparr>
        in (case encode_frames enc [] opened frames of
              (Inl e, c) \<Rightarrow> (Inl e, wld\<lparr>containers := containers wld @ [c]\<rparr>)
            | (Inr pending, c) \<Rightarrow>
                (Inr (),
                 wld\<lparr>containers := containers wld
                        @ [c\<lparr>packets := packets c @ stream_flush pending,
                             closed := True\<rparr>]\<rparr>)))"

subsection \<open>The frame sink with libraries that may raise\<close>

text \<open>
  In \<open>write_video\<close> above the libraries raise in \<open>stream.encode(video_frame)\<close> only.
  The other calls can raise as well: \<open>Image.save\<close> of the still image (with an exception
  that depends on the path), and between \<open>av.open\<close> and \<open>container.close()\<close> the call of
  \<open>add_stream\<close> with the settings of the stream, \<open>container.mux(packet)\<close>, the flush
  \<open>stream.encode()\<close>, and \<open>container.close()\<close> itself.  \<open>write_video_raising\<close> is the same
  function with these calls as parameters; none of them has a handler in the source, so
  each exception leaves the function with the container as it is.
\<close>

record libraries =
  save_raises :: "string \<Rightarrow> error option"
  add_stream_raises :: bool
  mux_raises :: "packet \<Rightarrow> bool"
  flush_raises :: bool
  close_raises :: bool

text \<open>\<open>for packet in packets: container.mux(packet)\<close>.\<close>

fun mux_all :: "libraries \<Rightarrow> container \<Rightarrow> packet list \<Rightarrow> (error + unit) \<times> container" where
  "mux_all lib c [] = (Inr (), c)"
| "mux_all lib c (p # ps) =
     (if mux_raises lib p then (Inl AVError, c)
      else mux_all lib (c\<lparr>packets := packets c @ [p]\<rparr>) ps)"

fun encode_frames_raising ::
  "libraries \<Rightarrow> encoder \<Rightarrow> rgb24 list \<Rightarrow> container \<Rightarrow> frames
     \<Rightarrow> (error + rgb24 list) \<times> container" where
  "encode_frames_raising lib enc pending c [] = (Inr pending, c)"
| "encode_frames_raising lib enc pending c (frame # rest) =
     (case stream_encode enc pending (frame_rgb24 frame) of
        Inl e \<Rightarrow> (Inl e, c)
      | Inr (emitted, pending') \<Rightarrow>
          (case mux_all lib c emitted of
             (Inl e, c') \<Rightarrow> (Inl e, c')
           | (Inr _, c') \<Rightarrow> encode_frames_raising lib enc pending' c' rest))"

definition write_video_raising ::
  "libraries \<Rightarrow> previewer \<Rightarrow> encoder \<Rightarrow> frames \<Rightarrow> nat \<Rightarrow> nat \<Rightarrow> string \<Rightarrow> world
     \<Rightarrow> (error + unit) \<times> world" where
  "write_video_raising lib self enc frames w h tgt wld =
     (if length frames = 1
      then (case save_raises lib (str_replace ''.mp4'' ''.png'' tgt) of
              Some e \<Rightarrow> (Inl e, wld)
            | None \<Rightarrow>
                (Inr (),
                 wld\<lparr>images := images wld
                        @ [(str_replace ''.mp4'' ''.png'' tgt, frame_rgb24 (frames ! 0))]\<rparr>))
      else
        let opened = \<lparr>target = str_replace ''.png'' ''.mp4'' tgt, codec = ''libx264'',
                      rate = fps self, pix_fmt = ''yuv420p'', width = w, height = h,
                      packets = [], closed = False\<rparr>
        in if add_stream_raises lib
           then (Inl AVError, wld\<lparr>containers := containers wld @ [opened]\<rparr>)
           else
             (case encode_frames_raising lib enc [] opened frames of
                (Inl e, c) \<Rightarrow> (Inl e, wld\<lparr>containers := containers wld @ [c]\<rparr>)
              | (Inr pending, c) \<Rightarrow>
                  if flush_raises lib
                  then (Inl AVError, wld\<lparr>containers := containers wld @ [c]\<rparr>)
                  else
                    (case mux_all lib c (stream_flush pending) of
                       (Inl e, c') \<Rightarrow> (Inl e, wld\<lparr>containers := containers wld @ [c']\<rparr>)
                     | (Inr _, c') \<Rightarrow>
                         if close_raises lib
                         then (Inl AVError, wld\<lparr>containers := containers wld @ [c']\<rparr>)
                         else (Inr (),
                               wld\<lparr>containers := containers wld
                                      @ [c'\<lparr>closed := True\<rparr>]\<rparr>))))"

text \<open>The library that raises in none of these calls.\<close>

definition returning :: libraries where
  "returning = \<lparr>save_raises = (\<lambda>path. None), add_stream_raises = False,
                 mux_raises = (\<lambda>p. False), flush_raises = False, close_raises = False\<rparr>"

subsection \<open>The learned decoder\<close>

text \<open>
  What a decoder hands to \<open>preview\<close>: four axes (frame, channel, row, column), or five when
  a leading batch axis of extent other than 1 survived \<open>squeeze(0)\<close>.
\<close>

datatype decoded = Frames4 frames | Frames5 "frames list"

text \<open>\<open>permute(0, 2, 1, 3, 4)\<close> of a five-dimensional tensor; any other rank raises.\<close>

definition permute_02134 :: "tensor \<Rightarrow> error + tensor" where
  "permute_02134 x =
     (case shape x of
        [B, C, F, H, W] \<Rightarrow>
          Inr \<lparr>shape = [B, F, C, H, W],
               vals = concat (map (\<lambda>b. concat (map (\<lambda>t. concat (map (\<lambda>c. concat (map (\<lambda>h.
                        map (\<lambda>w. at5 (vals x) C F H W b c t h w) [0..<W])
                        [0..<H])) [0..<C])) [0..<F])) [0..<B])\<rparr>
      | _ \<Rightarrow> Inl RuntimeError)"

definition squeeze0 :: "frames list \<Rightarrow> decoded" where
  "squeeze0 d = (case d of [x] \<Rightarrow> Frames4 x | _ \<Rightarrow> Frames5 d)"

text \<open>The same on what the normalizer returns.\<close>

definition permute_normalized :: "normalized \<Rightarrow> error + normalized" where
  "permute_normalized latents =
     (case latents of
        Finite x \<Rightarrow> (case permute_02134 x of Inl e \<Rightarrow> Inl e | Inr y \<Rightarrow> Inr (Finite y))
      | OneNaN n \<Rightarrow> if n = 5 then Inr (OneNaN 5) else Inl RuntimeError)"

definition decode_taehv :: "previewer \<Rightarrow> normalized \<Rightarrow> int \<Rightarrow> error + decoded" where
  "decode_taehv self latents current_step =
     (case permute_normalized latents of
        Inl e \<Rightarrow> Inl e
      | Inr latents_permuted \<Rightarrow>
          (case taehv self of
             None \<Rightarrow> Inl AttributeError
           | Some model \<Rightarrow>
               (case model latents_permuted of
                  Inl e \<Rightarrow> Inl e
                | Inr d \<Rightarrow> Inr (squeeze0 d))))"

subsection \<open>Bicubic upscaling\<close>

text \<open>
  \<open>F.interpolate(decoded, scale_factor, mode="bicubic", align_corners=False)\<close> as the tensor
  library computes it: the output pixel \<open>o\<close> reads the source position
  \<open>(o + 0.5) / scale_factor - 0.5\<close>, the four neighbours around it are weighted with the
  cubic convolution kernel of parameter \<open>A = -0.75\<close>, and neighbours outside the image are
  clamped to its border.
\<close>

definition cubic_convolution1 :: "real \<Rightarrow> real \<Rightarrow> real" where
  "cubic_convolution1 x A = ((A + 2) * x - (A + 3)) * x * x + 1"

definition cubic_convolution2 :: "real \<Rightarrow> real \<Rightarrow> real" where
  "cubic_convolution2 x A = ((A * x - 5 * A) * x + 8 * A) * x - 4 * A"

definition cubic_coefficients :: "real \<Rightarrow> real list" where
  "cubic_coefficients t =
     (let A = - 0.75
      in [cubic_convolution2 (t + 1) A, cubic_convolution1 t A,
          cubic_convolution1 (1 - t) A, cubic_convolution2 ((1 - t) + 1) A])"

definition source_index :: "nat \<Rightarrow> nat \<Rightarrow> real" where
  "source_index s dst = (1 / real s) * (real dst + 0.5) - 0.5"

definition clamp_index :: "int \<Rightarrow> nat \<Rightarrow> nat" where
  "clamp_index i n = nat (max (min i (int n - 1)) 0)"

definition cubic_interp1d :: "real list \<Rightarrow> real \<Rightarrow> real" where
  "cubic_interp1d xs t = sum_list (map2 (\<lambda>x k. x * k) xs (cubic_coefficients t))"

definition upsample_bicubic2d :: "nat \<Rightarrow> image \<Rightarrow> image" where
  "upsample_bicubic2d s img =
     (let input_height = length img; input_width = length (hd img)
      in map (\<lambda>output_y.
           map (\<lambda>output_x.
             let real_x = source_index s output_x; in_x = \<lfloor>real_x\<rfloor>;
                 t_x = real_x - of_int in_x;
                 real_y = source_index s output_y; in_y = \<lfloor>real_y\<rfloor>;
                 t_y = real_y - of_int in_y
             in cubic_interp1d
                  (map (\<lambda>i. cubic_interp1d
                               (map (\<lambda>j. img ! clamp_index (in_y - 1 + int i) input_height
                                              ! clamp_index (in_x - 1 + int j) input_width)
                                    [0..<4])
                               t_x)
                       [0..<4])
                  t_y)
             [0..<input_width * s])
           [0..<input_height * s])"

text \<open>
  The extents of a stack of frames are read along its first elements.  An input with an
  empty channel, row or column axis is refused by the tensor library, and so is a
  five-dimensional input in bicubic mode.
\<close>

definition interpolate :: "decoded \<Rightarrow> nat \<Rightarrow> error + decoded" where
  "interpolate d s =
     (case d of
        Frames5 _ \<Rightarrow> Inl NotImplementedError
      | Frames4 x \<Rightarrow>
          if x \<noteq> [] \<and> (hd x = [] \<or> hd (hd x) = [] \<or> hd (hd (hd x)) = [] \<or> s = 0)
          then Inl RuntimeError
          else Inr (Frames4 (map (map (upsample_bicubic2d s)) x)))"

subsection \<open>The preview\<close>

text \<open>\<open>unsqueeze(0)\<close>: a new leading axis of extent 1.\<close>

definition unsqueeze0 :: "tensor \<Rightarrow> tensor" where
  "unsqueeze0 x = x\<lparr>shape := 1 # shape x\<rparr>"

text \<open>
  \<open>self.decoder\<close>, bound by the constructor according to the mode.  On the tensor of \<open>n\<close>
  axes of extent 1 whose element is NaN, \<open>decode_latent2rgb\<close> raises before it computes with
  the element: \<open>ValueError\<close> for an unlisted family (lines 171--172), \<open>IndexError\<close> when
  \<open>latents.shape[2]\<close> or \<open>latents[:, :, t, :, :]\<close> asks for more axes than there are
  (\<open>n < 5\<close>), and \<open>RuntimeError\<close> for the one channel against the 16 of the weight
  (\<open>n = 5\<close>) or for \<open>permute(1, 2, 0)\<close> on more than three axes (\<open>n > 5\<close>).
\<close>

definition decoder :: "previewer \<Rightarrow> normalized \<Rightarrow> int \<Rightarrow> error + decoded" where
  "decoder self latents current_step =
     (case mode self of
        Taehv \<Rightarrow> decode_taehv self latents current_step
      | Latent2rgb \<Rightarrow>
          (case latents of
             Finite x \<Rightarrow>
               (case decode_latent2rgb self x current_step of
                  Inl e \<Rightarrow> Inl e
                | Inr y \<Rightarrow> Inr (Frames4 y))
           | OneNaN n \<Rightarrow>
               if map_of model_params (model_type self) = None then Inl ValueError
               else if n < 5 then Inl IndexError
               else Inl RuntimeError))"

text \<open>
  \<open>preview\<close> up to the call of the frame sink: the upscaled frames with \<open>w_up\<close> and
  \<open>h_up\<close>.  Unpacking the shape of a five-dimensional result into four names raises
  \<open>ValueError\<close>.
\<close>

definition preview_frames :: "previewer \<Rightarrow> tensor \<Rightarrow> int \<Rightarrow> error + frames \<times> nat \<times> nat" where
  "preview_frames self noisy_latents current_step =
     (let noisy = (if model_type self = ''wan'' then unsqueeze0 noisy_latents
                   else noisy_latents)
      in case subtract_original_and_normalize self noisy current_step of
           Inl e \<Rightarrow> Inl e
         | Inr denoisy_latents \<Rightarrow>
             (case decoder self denoisy_latents current_step of
                Inl e \<Rightarrow> Inl e
              | Inr decoded \<Rightarrow>
                  (case (case scale_factor self of
                           Some s \<Rightarrow> interpolate decoded s
                         | None \<Rightarrow> Inr decoded) of
                     Inl e \<Rightarrow> Inl e
                   | Inr (Frames5 _) \<Rightarrow> Inl ValueError
                   | Inr (Frames4 upscaled) \<Rightarrow>
                       Inr (upscaled, length (hd (hd (hd upscaled))),
                            length (hd (hd upscaled))))))"

text \<open>\<open>preview\<close>: the frames go to the frame sink with its default target.\<close>

definition preview :: "previewer \<Rightarrow> encoder \<Rightarrow> tensor \<Rightarrow> int \<Rightarrow> world \<Rightarrow> (error + unit) \<times> world" where
  "preview self enc noisy_latents current_step wld =
     (case preview_frames self noisy_latents current_step of
        Inl e \<Rightarrow> (Inl e, wld)
      | Inr (upscaled, w_up, h_up) \<Rightarrow>
          write_video self enc upscaled w_up h_up ''./latent_preview.mp4'' wld)"

section \<open>Wildcard files: \<open>wildcard_replace\<close>\<close>

subsection \<open>Strings and POSIX paths\<close>



text \<open>\<open>s.split(sep)\<close> for a separator of one character.\<close>

fun split :: "char \<Rightarrow> string \<Rightarrow> string list" where
  "split sep [] = [[]]"
| "split sep (c # cs) =
     (if c = sep then [] # split sep cs
      else (c # hd (split sep cs)) # tl (split sep cs))"






subsection \<open>The environment\<close>



subsection \<open>Reading the options\<close>





subsection \<open>\<open>wildcard_replace\<close>\<close>


section \<open>Properties of the construction\<close>

lemma init_fields:
  assumes "LatentPreviewer_init load_taehv a original timesteps dev dt mtype = Inr self"
  shows "timesteps_percent self = timesteps_percent_of timesteps"
    and "dtype self = working_dtype dt"
    and "model_type self = mtype"
    and "original_latents self = original"
  using assms
  by (auto simp: LatentPreviewer_init_def split: option.splits sum.splits)

text \<open>
  C7, as the code has it: the stored schedule is the raw sequence with every value
  divided by 1000 (not by the maximum of the sequence), so the stored noise fractions
  lie in [0,1] exactly when the raw timesteps lie in [0,1000].
\<close>

theorem timesteps_percent_divided_by_1000:
  assumes "LatentPreviewer_init load_taehv a original timesteps dev dt mtype = Inr self"
  shows "timesteps_percent self = map (\<lambda>t. t / 1000) timesteps
       \<and> ((\<forall>p \<in> set (timesteps_percent self). 0 \<le> p \<and> p \<le> 1)
            \<longleftrightarrow> (\<forall>t \<in> set timesteps. 0 \<le> t \<and> t \<le> 1000))"
proof -
  have stored: "timesteps_percent self = map (\<lambda>t. t / 1000) timesteps"
    using init_fields(1) [OF assms] by (simp add: timesteps_percent_of_def)
  have "(\<forall>p \<in> set (map (\<lambda>t. t / 1000) timesteps). 0 \<le> p \<and> p \<le> 1)
      \<longleftrightarrow> (\<forall>t \<in> set timesteps. 0 \<le> t \<and> t \<le> 1000)"
    by (induction timesteps) auto
  with stored show ?thesis by simp
qed

theorem timesteps_percent_divided_by_1000_witness:
  "LatentPreviewer_init (\<lambda>p. Inl FileNotFoundError)
     \<lparr>preview_vae = None, args_fps = 24, args_device = ''cpu''\<rparr>
     \<lparr>shape = [2], vals = [0, 0]\<rparr> [1000, 500] ''cpu'' float32 ''hunyuan''
   = Inr \<lparr>mode = Latent2rgb,
          self_args = \<lparr>preview_vae = None, args_fps = 24, args_device = ''cpu''\<rparr>,
          model_type = ''hunyuan'', original_latents = \<lparr>shape = [2], vals = [0, 0]\<rparr>,
          timesteps_percent = [1, 1 / 2], device = ''cpu'', dtype = float32,
          taehv = None, scale_factor = Some 8, fps = 6\<rparr>
   \<and> timesteps_percent \<lparr>mode = Latent2rgb,
          self_args = \<lparr>preview_vae = None, args_fps = 24, args_device = ''cpu''\<rparr>,
          model_type = ''hunyuan'', original_latents = \<lparr>shape = [2], vals = [0, 0]\<rparr>,
          timesteps_percent = [1, 1 / 2], device = ''cpu'', dtype = float32,
          taehv = None, scale_factor = Some 8, fps = 6\<rparr> = map (\<lambda>t. t / 1000) [1000, 500]"
proof -
  have built: "LatentPreviewer_init (\<lambda>p. Inl FileNotFoundError)
     \<lparr>preview_vae = None, args_fps = 24, args_device = ''cpu''\<rparr>
     \<lparr>shape = [2], vals = [0, 0]\<rparr> [1000, 500] ''cpu'' float32 ''hunyuan''
   = Inr \<lparr>mode = Latent2rgb,
          self_args = \<lparr>preview_vae = None, args_fps = 24, args_device = ''cpu''\<rparr>,
          model_type = ''hunyuan'', original_latents = \<lparr>shape = [2], vals = [0, 0]\<rparr>,
          timesteps_percent = [1, 1 / 2], device = ''cpu'', dtype = float32,
          taehv = None, scale_factor = Some 8, fps = 6\<rparr>"
    by (simp add: LatentPreviewer_init_def timesteps_percent_of_def working_dtype_def
          quarter_fps_def)
  from timesteps_percent_divided_by_1000 [OF built] built show ?thesis
    by blast
qed

text \<open>
  The claim C7 as the specification states it fails: for the raw timesteps 500 and 250
  the constructor stores 1/2 and 1/4, and division by the maximum would give 1 and 1/2.
\<close>

theorem timesteps_not_divided_by_maximum:
  "map_sum id timesteps_percent
     (LatentPreviewer_init (\<lambda>p. Inl FileNotFoundError)
        \<lparr>preview_vae = None, args_fps = 24, args_device = ''cpu''\<rparr>
        \<lparr>shape = [2], vals = [0, 0]\<rparr> [500, 250] ''cpu'' float32 ''hunyuan'')
     = Inr [1 / 2, 1 / 4]
   \<and> spec_timestep_schedule [500, 250] = [1, 1 / 2]"
  by (simp add: LatentPreviewer_init_def timesteps_percent_of_def spec_timestep_schedule_def)

text \<open>
  C8, as the code has it: the working precision is half precision when the requested
  precision is \<open>float8_e4m3fn\<close>, and the requested precision otherwise, also for the
  other 8-bit floating-point formats.
\<close>

theorem working_precision:
  assumes "LatentPreviewer_init load_taehv a original timesteps dev dt mtype = Inr self"
  shows "dtype self = (if dt = float8_e4m3fn then float16 else dt)"
  using init_fields(2) [OF assms] by (simp add: working_dtype_def)

theorem working_precision_witness:
  "LatentPreviewer_init (\<lambda>p. Inl FileNotFoundError)
     \<lparr>preview_vae = None, args_fps = 24, args_device = ''cpu''\<rparr>
     \<lparr>shape = [2], vals = [0, 0]\<rparr> [1000, 500] ''cpu'' float8_e4m3fn ''hunyuan''
   = Inr \<lparr>mode = Latent2rgb,
          self_args = \<lparr>preview_vae = None, args_fps = 24, args_device = ''cpu''\<rparr>,
          model_type = ''hunyuan'', original_latents = \<lparr>shape = [2], vals = [0, 0]\<rparr>,
          timesteps_percent = [1, 1 / 2], device = ''cpu'', dtype = float16,
          taehv = None, scale_factor = Some 8, fps = 6\<rparr>
   \<and> dtype \<lparr>mode = Latent2rgb,
          self_args = \<lparr>preview_vae = None, args_fps = 24, args_device = ''cpu''\<rparr>,
          model_type = ''hunyuan'', original_latents = \<lparr>shape = [2], vals = [0, 0]\<rparr>,
          timesteps_percent = [1, 1 / 2], device = ''cpu'', dtype = float16,
          taehv = None, scale_factor = Some 8, fps = 6\<rparr> = float16"
proof -
  have built: "LatentPreviewer_init (\<lambda>p. Inl FileNotFoundError)
     \<lparr>preview_vae = None, args_fps = 24, args_device = ''cpu''\<rparr>
     \<lparr>shape = [2], vals = [0, 0]\<rparr> [1000, 500] ''cpu'' float8_e4m3fn ''hunyuan''
   = Inr \<lparr>mode = Latent2rgb,
          self_args = \<lparr>preview_vae = None, args_fps = 24, args_device = ''cpu''\<rparr>,
          model_type = ''hunyuan'', original_latents = \<lparr>shape = [2], vals = [0, 0]\<rparr>,
          timesteps_percent = [1, 1 / 2], device = ''cpu'', dtype = float16,
          taehv = None, scale_factor = Some 8, fps = 6\<rparr>"
    by (simp add: LatentPreviewer_init_def timesteps_percent_of_def working_dtype_def
          quarter_fps_def)
  from working_precision [OF built] built show ?thesis
    by simp
qed

text \<open>
  The claim C8 as the specification states it fails: \<open>float8_e5m2\<close> is an 8-bit
  floating-point precision, and the constructor keeps it.
\<close>

theorem float8_e5m2_not_coerced:
  "dtype_bits float8_e5m2 = 8
   \<and> map_sum id dtype
       (LatentPreviewer_init (\<lambda>p. Inl FileNotFoundError)
          \<lparr>preview_vae = None, args_fps = 24, args_device = ''cpu''\<rparr>
          \<lparr>shape = [2], vals = [0, 0]\<rparr> [1000, 500] ''cpu'' float8_e5m2 ''hunyuan'')
       = Inr float8_e5m2"
  by (simp add: LatentPreviewer_init_def working_dtype_def)

section \<open>Properties of the noise normalizer\<close>

lemma concat_chunks: "concat (map (\<lambda>i. take k (drop (i * k) xs)) [0..<d]) = take (d * k) xs"
proof (induction d)
  case 0 then show ?case by simp
next
  case (Suc d)
  have "take (d * k) xs @ take k (drop (d * k) xs) = take (d * k + k) xs"
    by (simp add: take_add)
  with Suc show ?case by (simp add: add.commute)
qed

lemma expand_same: "length xs = prod_list s \<Longrightarrow> expand s s xs = xs"
proof (induction s arbitrary: xs)
  case Nil then show ?case by simp
next
  case (Cons d ds)
  have "\<And>i. i < d \<Longrightarrow> length (take (prod_list ds) (drop (i * prod_list ds) xs)) = prod_list ds"
  proof -
    fix i assume "i < d"
    then have "Suc i * prod_list ds \<le> d * prod_list ds" by (intro mult_le_mono1) simp
    then show "length (take (prod_list ds) (drop (i * prod_list ds) xs)) = prod_list ds"
      using Cons.prems by simp
  qed
  then have "map (\<lambda>i. expand ds ds (take (prod_list ds) (drop (i * prod_list ds) xs))) [0..<d]
           = map (\<lambda>i. take (prod_list ds) (drop (i * prod_list ds) xs)) [0..<d]"
    using Cons.IH by simp
  then have "concat (map (\<lambda>i. expand ds ds (take (prod_list ds) (drop (i * prod_list ds) xs))) [0..<d])
           = take (d * prod_list ds) xs"
    by (simp only: concat_chunks)
  moreover have "expand (d # ds) (d # ds) xs
      = concat (map (\<lambda>i. expand ds ds (take (prod_list ds) (drop (i * prod_list ds) xs))) [0..<d])"
    by simp
  ultimately show ?case using Cons.prems by simp
qed

lemma map2_same: "map2 f xs xs = map (\<lambda>x. f x x) xs"
  by (induction xs) auto

lemma broadcast_same: "broadcast_shapes s s = Some s"
  by (simp add: broadcast_shapes_def pad_shape_def list_all2_same map2_same)

lemma tensor_sub_same_shape:
  assumes "shape a = shape b" "wf_tensor a" "wf_tensor b"
  shows "tensor_sub a b = Inr \<lparr>shape = shape a, vals = map2 (\<lambda>x y. x - y) (vals a) (vals b)\<rparr>"
  using assms
  by (simp add: tensor_sub_def broadcast_same pad_shape_def wf_tensor_def expand_same)

lemma sum_list_shift_scale:
  "sum_list (map (\<lambda>x. (x - m) / d) xs) = (sum_list xs - real (length xs) * m) / (d::real)"
  by (induction xs) (simp_all add: field_simps add_divide_distrib diff_divide_distrib)

lemma mean_centered: "xs \<noteq> [] \<Longrightarrow> mean (map (\<lambda>x. (x - mean xs) / d) xs) = 0"
  by (simp add: mean_def sum_list_shift_scale)

lemma sum_list_squares_scaled:
  "sum_list (map (\<lambda>x. ((x - m) / d)\<^sup>2) xs) = sum_list (map (\<lambda>x. (x - m)\<^sup>2) xs) / (d::real)\<^sup>2"
  by (induction xs) (simp_all add: power_divide add_divide_distrib)

lemma sum_squares_nonneg: "0 \<le> sum_list (map (\<lambda>x. (x - m)\<^sup>2) (xs::real list))"
  by (rule sum_list_nonneg) auto

lemma std_nonneg: "0 \<le> std xs"
  unfolding std_def by (intro real_sqrt_ge_zero divide_nonneg_nonneg sum_squares_nonneg) simp

lemma std_centered:
  assumes "0 < d"
  shows "std (map (\<lambda>x. (x - mean xs) / d) xs) = std xs / d"
proof (cases "xs = []")
  case True
  then show ?thesis by (simp add: std_def)
next
  case False
  then have m0: "mean (map (\<lambda>x. (x - mean xs) / d) xs) = 0" by (rule mean_centered)
  have "std (map (\<lambda>x. (x - mean xs) / d) xs)
      = sqrt (sum_list (map (\<lambda>x. ((x - mean xs) / d)\<^sup>2) xs) / real (length xs - 1))"
    unfolding std_def m0 by (simp add: comp_def)
  also have "\<dots> = sqrt ((sum_list (map (\<lambda>x. (x - mean xs)\<^sup>2) xs) / real (length xs - 1)) / d\<^sup>2)"
    by (simp add: sum_list_squares_scaled)
  also have "\<dots> = sqrt (sum_list (map (\<lambda>x. (x - mean xs)\<^sup>2) xs) / real (length xs - 1)) / sqrt (d\<^sup>2)"
    by (rule real_sqrt_divide)
  also have "\<dots> = std xs / d"
    using assms by (simp add: std_def)
  finally show ?thesis .
qed

lemma unit_std_iff:
  assumes "0 \<le> (s::real)"
  shows "\<bar>s / (s + 0.00001) - 1\<bar> \<le> 0.0001 \<longleftrightarrow> 0.09999 \<le> s"
proof -
  have pos: "0 < s + 0.00001" using assms by simp
  have "s / (s + 0.00001) - 1 = - (0.00001 / (s + 0.00001))"
    using pos by (simp add: field_simps)
  then have "\<bar>s / (s + 0.00001) - 1\<bar> = 0.00001 / (s + 0.00001)"
    using pos by simp
  then show ?thesis using pos by (simp add: field_simps)
qed

lemma py_index_valid:
  "0 \<le> i \<Longrightarrow> i < int (length xs) \<Longrightarrow> py_index xs i = Inr (xs ! nat i)"
  by (simp add: py_index_def)

lemma normalize_residual:
  assumes "py_index (timesteps_percent self) current_step = Inr noise_remaining"
      and "tensor_sub noisy_latents (tensor_scale (original_latents self) noise_remaining)
           = Inr residual"
  shows "subtract_original_and_normalize self noisy_latents current_step
         = (if length (vals residual) = 1 then Inr (OneNaN (length (shape residual)))
            else Inr (Finite \<lparr>shape = shape residual,
                              vals = map (\<lambda>x. (x - mean (vals residual))
                                                / (std (vals residual) + 0.00001))
                                         (vals residual)\<rparr>))"
  by (simp add: subtract_original_and_normalize_def assms)

lemma broadcast_unsqueezed: "broadcast_shapes (1 # s) s = Some (1 # s)"
  by (simp add: broadcast_shapes_def pad_shape_def list_all2_same map2_same max_def)

lemma residual_elementwise:
  assumes "wf_tensor noisy_latents" "wf_tensor original"
      and "shape noisy_latents = shape original \<or> shape noisy_latents = 1 # shape original"
  shows "tensor_sub noisy_latents (tensor_scale original noise_remaining)
         = Inr \<lparr>shape = shape noisy_latents,
                vals = map2 (\<lambda>x y. x - y * noise_remaining) (vals noisy_latents) (vals original)\<rparr>"
proof -
  let ?o = "tensor_scale original noise_remaining"
  have scaled: "map2 (\<lambda>x y. x - y) (vals noisy_latents) (vals ?o)
      = map2 (\<lambda>x y. x - y * noise_remaining) (vals noisy_latents) (vals original)"
    by (simp add: tensor_scale_def zip_map2 comp_def case_prod_unfold)
  from assms(3) show ?thesis
  proof
    assume same: "shape noisy_latents = shape original"
    have wfo: "wf_tensor ?o" and so: "shape noisy_latents = shape ?o"
      using assms(2) same by (simp_all add: wf_tensor_def tensor_scale_def)
    show ?thesis
      unfolding tensor_sub_same_shape [OF so assms(1) wfo] scaled ..
  next
    assume unsq: "shape noisy_latents = 1 # shape original"
    have ln: "length (vals noisy_latents) = prod_list (1 # shape original)"
      using assms(1) unsq by (simp add: wf_tensor_def)
    have lo: "length (vals ?o) = prod_list (1 # shape original)"
      using assms(2) by (simp add: wf_tensor_def tensor_scale_def)
    have so: "shape ?o = shape original" by (simp add: tensor_scale_def)
    have "tensor_sub noisy_latents ?o
        = Inr \<lparr>shape = 1 # shape original,
               vals = map2 (\<lambda>x y. x - y)
                        (expand (1 # shape original) (1 # shape original) (vals noisy_latents))
                        (expand (1 # shape original) (1 # shape original) (vals ?o))\<rparr>"
      unfolding tensor_sub_def unsq so broadcast_unsqueezed
      by (simp add: pad_shape_def)
    then show ?thesis
      unfolding expand_same [OF ln] expand_same [OF lo] scaled unsq .
  qed
qed

lemma normalize_result:
  assumes "0 \<le> current_step" "current_step < int (length (timesteps_percent self))"
      and "shape (original_latents self) = shape noisy_latents"
      and "wf_tensor noisy_latents" "wf_tensor (original_latents self)"
      and "length (vals noisy_latents) \<noteq> 1"
  shows "subtract_original_and_normalize self noisy_latents current_step =
         Inr (Finite \<lparr>shape = shape noisy_latents,
              vals = map (\<lambda>r. (r - mean (map2 (\<lambda>x y. x - y * (timesteps_percent self ! nat current_step)) (vals noisy_latents) (vals (original_latents self))))
                        / (std (map2 (\<lambda>x y. x - y * (timesteps_percent self ! nat current_step)) (vals noisy_latents) (vals (original_latents self))) + 0.00001))
                     (map2 (\<lambda>x y. x - y * (timesteps_percent self ! nat current_step)) (vals noisy_latents) (vals (original_latents self)))\<rparr>)"
proof -
  have len: "length (vals noisy_latents) = length (vals (original_latents self))"
    using assms by (simp add: wf_tensor_def)
  have sub: "tensor_sub noisy_latents
        (tensor_scale (original_latents self) (timesteps_percent self ! nat current_step))
     = Inr \<lparr>shape = shape noisy_latents,
            vals = map2 (\<lambda>x y. x - y * (timesteps_percent self ! nat current_step)) (vals noisy_latents) (vals (original_latents self))\<rparr>"
    using assms(3-5) by (intro residual_elementwise) simp_all
  show ?thesis
    using assms(6) len
    by (simp add: normalize_residual [OF py_index_valid [OF assms(1,2)] sub])
qed

lemma std_example: "std [- (1 / 100), 0, 1 / 100] = 1 / 100"
  by (simp add: std_def mean_def power2_eq_square real_sqrt_divide)

text \<open>
  C1, as the code has it.  For a valid step index and a snapshot whose shape broadcasts
  against the reference's, let \<open>residual\<close> be the broadcast difference
  \<open>noisy_latents - original_latents * timesteps_percent[current_step]\<close>.  The normalizer
  returns \<open>(residual - mean) / (std + 1e-5)\<close> with the mean and the (Bessel-corrected)
  standard deviation over all elements of the residual; for a residual of exactly one
  element that standard deviation, and with it the result, is NaN.  For a residual of at
  least two elements the output has mean 0 and standard deviation \<open>std / (std + 1e-5)\<close>,
  which is within 1e-4 of 1 exactly when the residual's standard deviation is at least
  0.09999.  For a snapshot of the reference's shape, and for one with an additional leading
  axis of extent 1 (what \<open>preview\<close> passes for the family \<open>wan\<close>), the residual is the
  elementwise difference.
\<close>

theorem normalizer_output:
  assumes "py_index (timesteps_percent self) current_step = Inr noise_remaining"
      and "tensor_sub noisy_latents (tensor_scale (original_latents self) noise_remaining)
           = Inr residual"
      and "out = map (\<lambda>r. (r - mean (vals residual)) / (std (vals residual) + 0.00001))
                     (vals residual)"
  shows "(length (vals residual) \<noteq> 1 \<longrightarrow>
            subtract_original_and_normalize self noisy_latents current_step
            = Inr (Finite \<lparr>shape = shape residual, vals = out\<rparr>))
       \<and> (length (vals residual) = 1 \<longrightarrow>
            subtract_original_and_normalize self noisy_latents current_step
            = Inr (OneNaN (length (shape residual))))
       \<and> (2 \<le> length (vals residual) \<longrightarrow>
            mean out = 0
            \<and> std out = std (vals residual) / (std (vals residual) + 0.00001)
            \<and> (\<bar>std out - 1\<bar> \<le> 0.0001 \<longleftrightarrow> 0.09999 \<le> std (vals residual)))
       \<and> (wf_tensor noisy_latents \<and> wf_tensor (original_latents self)
            \<and> (shape noisy_latents = shape (original_latents self)
               \<or> shape noisy_latents = 1 # shape (original_latents self)) \<longrightarrow>
            residual = \<lparr>shape = shape noisy_latents,
                         vals = map2 (\<lambda>x y. x - y * noise_remaining)
                                  (vals noisy_latents) (vals (original_latents self))\<rparr>)"
proof (intro conjI impI)
  assume "length (vals residual) \<noteq> 1"
  then show "subtract_original_and_normalize self noisy_latents current_step
            = Inr (Finite \<lparr>shape = shape residual, vals = out\<rparr>)"
    by (simp add: normalize_residual [OF assms(1,2)] assms(3))
next
  assume "length (vals residual) = 1"
  then show "subtract_original_and_normalize self noisy_latents current_step
            = Inr (OneNaN (length (shape residual)))"
    by (simp add: normalize_residual [OF assms(1,2)])
next
  assume two: "2 \<le> length (vals residual)"
  then have ne: "vals residual \<noteq> []" by auto
  have pos: "0 < std (vals residual) + 0.00001"
    using std_nonneg [of "vals residual"] by simp
  show "mean out = 0"
    unfolding assms(3) using ne by (rule mean_centered)
  show s: "std out = std (vals residual) / (std (vals residual) + 0.00001)"
    unfolding assms(3) using pos by (rule std_centered)
  show "\<bar>std out - 1\<bar> \<le> 0.0001 \<longleftrightarrow> 0.09999 \<le> std (vals residual)"
    unfolding s using std_nonneg by (rule unit_std_iff)
next
  assume a: "wf_tensor noisy_latents \<and> wf_tensor (original_latents self)
            \<and> (shape noisy_latents = shape (original_latents self)
               \<or> shape noisy_latents = 1 # shape (original_latents self))"
  then have "tensor_sub noisy_latents (tensor_scale (original_latents self) noise_remaining)
         = Inr \<lparr>shape = shape noisy_latents,
                vals = map2 (\<lambda>x y. x - y * noise_remaining)
                         (vals noisy_latents) (vals (original_latents self))\<rparr>"
    by (intro residual_elementwise) simp_all
  with assms(2) show "residual = \<lparr>shape = shape noisy_latents,
                         vals = map2 (\<lambda>x y. x - y * noise_remaining)
                                  (vals noisy_latents) (vals (original_latents self))\<rparr>"
    by simp
qed

lemma std_unit_example: "std [- 1, 0, 1] = 1"
  by (simp add: std_def mean_def)

theorem normalizer_output_witness:
  "subtract_original_and_normalize
     (latent2rgb_previewer \<lparr>shape = [3], vals = [0, 0, 0]\<rparr> [0] ''wan'' 24)
     \<lparr>shape = [1, 3], vals = [- 1, 0, 1]\<rparr> 0
   = Inr (Finite \<lparr>shape = [1, 3], vals = [- (100000 / 100001), 0, 100000 / 100001]\<rparr>)
   \<and> mean [- (100000 / 100001), 0, 100000 / 100001] = 0
   \<and> std [- (100000 / 100001), 0, 100000 / 100001] = 100000 / 100001"
proof -
  let ?self = "latent2rgb_previewer \<lparr>shape = [3], vals = [0, 0, 0]\<rparr> [0] ''wan'' 24"
  let ?noisy = "\<lparr>shape = [1, 3], vals = [- 1, 0, 1]\<rparr>"
  have i: "py_index (timesteps_percent ?self) 0 = Inr 0"
    by (simp add: py_index_def latent2rgb_previewer_def)
  have r: "tensor_sub ?noisy (tensor_scale (original_latents ?self) 0) = Inr ?noisy"
    by (subst residual_elementwise) (simp_all add: wf_tensor_def latent2rgb_previewer_def)
  have o: "[- (100000 / 100001), 0, 100000 / 100001]
         = map (\<lambda>r. (r - mean (vals ?noisy)) / (std (vals ?noisy) + 0.00001)) (vals ?noisy)"
    by (simp add: std_unit_example mean_def)
  from normalizer_output [OF i r o] show ?thesis
    by (simp add: std_unit_example)
qed

text \<open>
  The claim C1 as the specification states it fails.  The snapshot -0.01, 0, 0.01 is not
  all-equal, and the standard deviation of the normalizer's output is 1000/1001, further
  than 1e-4 from 1.  A snapshot whose shape does not broadcast against the reference's
  makes the normalizer raise, and for a snapshot of one element the result is NaN.
\<close>

theorem normalizer_std_counterexample:
  "subtract_original_and_normalize
     (latent2rgb_previewer \<lparr>shape = [3], vals = [0, 0, 0]\<rparr> [0] ''hunyuan'' 24)
     \<lparr>shape = [3], vals = [- 0.01, 0, 0.01]\<rparr> 0
   = Inr (Finite \<lparr>shape = [3], vals = [- (1000 / 1001), 0, 1000 / 1001]\<rparr>)
   \<and> std [- (1000 / 1001), 0, 1000 / 1001] = 1000 / 1001
   \<and> \<bar>1000 / 1001 - 1\<bar> > (0.0001 :: real)
   \<and> subtract_original_and_normalize
     (latent2rgb_previewer \<lparr>shape = [3], vals = [0, 0, 0]\<rparr> [0] ''hunyuan'' 24)
     \<lparr>shape = [2], vals = [0, 1]\<rparr> 0
   = Inl RuntimeError
   \<and> subtract_original_and_normalize
     (latent2rgb_previewer \<lparr>shape = [1], vals = [0]\<rparr> [0] ''hunyuan'' 24)
     \<lparr>shape = [1], vals = [5]\<rparr> 0
   = Inr (OneNaN 1)"
proof -
  have "subtract_original_and_normalize
     (latent2rgb_previewer \<lparr>shape = [3], vals = [0, 0, 0]\<rparr> [0] ''hunyuan'' 24)
     \<lparr>shape = [3], vals = [- 0.01, 0, 0.01]\<rparr> 0
   = Inr (Finite \<lparr>shape = [3], vals = [- (1000 / 1001), 0, 1000 / 1001]\<rparr>)"
    by (subst normalize_result)
       (simp_all add: latent2rgb_previewer_def wf_tensor_def std_example mean_def)
  moreover have "std [- (1000 / 1001), 0, 1000 / 1001] = 1000 / 1001"
    by (simp add: std_def mean_def power2_eq_square real_sqrt_divide)
  moreover have "subtract_original_and_normalize
     (latent2rgb_previewer \<lparr>shape = [3], vals = [0, 0, 0]\<rparr> [0] ''hunyuan'' 24)
     \<lparr>shape = [2], vals = [0, 1]\<rparr> 0
   = Inl RuntimeError"
    by (simp add: subtract_original_and_normalize_def py_index_def latent2rgb_previewer_def
        tensor_sub_def tensor_scale_def broadcast_shapes_def pad_shape_def)
  moreover have "subtract_original_and_normalize
     (latent2rgb_previewer \<lparr>shape = [1], vals = [0]\<rparr> [0] ''hunyuan'' 24)
     \<lparr>shape = [1], vals = [5]\<rparr> 0
   = Inr (OneNaN 1)"
    by (simp add: subtract_original_and_normalize_def py_index_def latent2rgb_previewer_def
        tensor_sub_def tensor_scale_def broadcast_shapes_def pad_shape_def)
  ultimately show ?thesis by simp
qed

section \<open>Properties of the linear-projection decoder\<close>

lemma flat4_map4: "flat4 (map4 f x) = map f (flat4 x)"
  by (simp add: flat4_def map4_def map_concat comp_def)

lemma in_flat4_iff:
  "v \<in> set (flat4 x) \<longleftrightarrow> (\<exists>fr \<in> set x. \<exists>row \<in> set fr. \<exists>px \<in> set row. v \<in> set px)"
  by (auto simp: flat4_def)

lemma flat4_permute_subset:
  assumes "pixels3 x"
  shows "set (flat4 (permute_0312 x)) \<subseteq> set (flat4 x)"
proof
  fix v assume "v \<in> set (flat4 (permute_0312 x))"
  then obtain fr c row px where *: "fr \<in> set x" "c < 3" "row \<in> set fr" "px \<in> set row" "v = px ! c"
    by (auto simp: in_flat4_iff permute_0312_def)
  then have "length px = 3" using assms by (auto simp: pixels3_def)
  with * have "v \<in> set px" by simp
  with * show "v \<in> set (flat4 x)" by (auto simp: in_flat4_iff)
qed

lemma pixels3_map4: "pixels3 x \<Longrightarrow> pixels3 (map4 f x)"
  by (auto simp: pixels3_def map4_def)

lemma rescaled_in_unit:
  assumes "v \<in> set xs" "Min (set xs) < Max (set xs)"
  shows "0 \<le> (v - Min (set xs)) / (Max (set xs) - Min (set xs))
       \<and> (v - Min (set xs)) / (Max (set xs) - Min (set xs)) \<le> (1::real)"
proof -
  have "Min (set xs) \<le> v" "v \<le> Max (set xs)" using assms(1) by simp_all
  with assms(2) show ?thesis by (simp add: field_simps)
qed

lemma normalize_01_range:
  assumes "Min (set (flat4 x)) < Max (set (flat4 x))" "v \<in> set (flat4 (normalize_01 x))"
  shows "0 \<le> v \<and> v \<le> 1"
proof -
  from assms obtain u where "u \<in> set (flat4 x)"
    "v = (u - Min (set (flat4 x))) / (Max (set (flat4 x)) - Min (set (flat4 x)))"
    by (auto simp: normalize_01_def Let_def flat4_map4)
  with rescaled_in_unit [OF this(1) assms(1)] show ?thesis by simp
qed

lemma pixels3_normalize_01: "pixels3 x \<Longrightarrow> pixels3 (normalize_01 x)"
  by (simp add: normalize_01_def Let_def pixels3_map4)

lemma length_linear: "length (linear px w b) = min (length w) (length b)"
  by (simp add: linear_def)

lemma model_params_cases:
  assumes "map_of model_params m = Some (rgb_factors, bias)"
  shows "length rgb_factors = 16 \<and> length (transpose rgb_factors) = 3 \<and> length bias = 3"
proof -
  from assms have "(rgb_factors, bias) = (hunyuan_rgb_factors, hunyuan_bias)
      \<or> (rgb_factors, bias) = (wan_rgb_factors, wan_bias)"
    by (auto simp: model_params_def split: if_splits)
  then show ?thesis
    by (auto simp: hunyuan_rgb_factors_def hunyuan_bias_def wan_rgb_factors_def wan_bias_def
          length_transpose)
qed

lemma stack_frames_shape5:
  assumes "shape latents = [B, C, F, H, W]" "0 < B" "0 < F" "0 < H" "0 < W"
      and "C = length rgb_factors"
  shows "stack_frames rgb_factors bias latents =
         Inr (map (\<lambda>t. map (map (\<lambda>px. linear px (transpose rgb_factors) bias))
                           (extracted (vals latents) C F H W t)) [0..<F])"
  using assms by (simp add: stack_frames_def)

lemma pixels3_stacked:
  assumes "length (transpose rgb_factors) = 3" "length bias = 3"
  shows "pixels3 (map (\<lambda>t. map (map (\<lambda>px. linear px (transpose rgb_factors) bias))
                           (extracted xs C F H W t)) [0..<F])"
  using assms by (auto simp: pixels3_def length_linear)

text \<open>
  C2: for a model family with an entry of the coefficient table and a latent of shape
  (B, 16, F, H, W) without an empty axis, the decoder takes the minimum \<open>lo\<close> and the
  maximum \<open>hi\<close> over all elements of the stacked frames; if \<open>hi > lo\<close> every value
  is rescaled by \<open>(x - lo) / (hi - lo)\<close> and all output values lie in [0,1]; otherwise
  the stacked frames are returned as they are (permuted to frame, colour, row, column).
\<close>

theorem linear_projection_rescale:
  assumes "map_of model_params (model_type self) = Some (rgb_factors, bias)"
      and "shape latents = [B, 16, F, H, W]" "0 < B" "0 < F" "0 < H" "0 < W"
      and "stacked = map (\<lambda>t. map (map (\<lambda>px. linear px (transpose rgb_factors) bias))
                                 (extracted (vals latents) 16 F H W t)) [0..<F]"
      and "lo = Min (set (flat4 stacked))" "hi = Max (set (flat4 stacked))"
  shows "decode_latent2rgb self latents current_step
           = Inr (permute_0312 (if hi > lo then map4 (\<lambda>x. (x - lo) / (hi - lo)) stacked
                                else stacked))
       \<and> (hi > lo \<longrightarrow>
            (\<forall>v \<in> set (flat4 (permute_0312 (map4 (\<lambda>x. (x - lo) / (hi - lo)) stacked))).
               0 \<le> v \<and> v \<le> 1))"
proof -
  note mp = model_params_cases [OF assms(1)]
  have st: "stack_frames rgb_factors bias latents = Inr stacked"
    unfolding assms(7) by (rule stack_frames_shape5 [OF assms(2-6)]) (simp add: mp)
  have dec: "decode_latent2rgb self latents current_step = Inr (permute_0312 (normalize_01 stacked))"
    by (simp add: decode_latent2rgb_def assms(1) st)
  have p3: "pixels3 stacked"
    unfolding assms(7) by (rule pixels3_stacked) (simp_all add: mp)
  have norm: "normalize_01 stacked
      = (if hi > lo then map4 (\<lambda>x. (x - lo) / (hi - lo)) stacked else stacked)"
    by (simp add: normalize_01_def Let_def assms(8,9))
  have "\<forall>v \<in> set (flat4 (permute_0312 (normalize_01 stacked))). 0 \<le> v \<and> v \<le> 1" if "hi > lo"
  proof
    fix v assume "v \<in> set (flat4 (permute_0312 (normalize_01 stacked)))"
    then have "v \<in> set (flat4 (normalize_01 stacked))"
      using flat4_permute_subset [OF pixels3_normalize_01 [OF p3]] by blast
    then show "0 \<le> v \<and> v \<le> 1"
      using that normalize_01_range [of stacked v] by (simp add: assms(8,9))
  qed
  with dec norm show ?thesis by auto
qed

theorem linear_projection_rescale_witness:
  "decode_latent2rgb (latent2rgb_previewer \<lparr>shape = [1], vals = [0]\<rparr> [0] ''hunyuan'' 24)
     \<lparr>shape = [1, 16, 1, 1, 2], vals = [1, 0] @ replicate 30 0\<rparr> 0
   = Inr [[[[125 / 204, 1]], [[7 / 30, 569 / 1020]], [[89 / 204, 0]]]]
   \<and> list_all (\<lambda>v. 0 \<le> v \<and> v \<le> 1)
       (flat4 [[[[125 / 204, 1]], [[7 / 30, 569 / 1020]], [[89 / 204, 0 :: real]]]])"
proof -
  let ?self = "latent2rgb_previewer \<lparr>shape = [1], vals = [0]\<rparr> [0] ''hunyuan'' 24"
  let ?lat = "\<lparr>shape = [1, 16, 1, 1, 2], vals = [1, 0] @ replicate 30 0\<rparr>"
  have fam: "map_of model_params (model_type ?self) = Some (hunyuan_rgb_factors, hunyuan_bias)"
    by (simp add: latent2rgb_previewer_def model_params_def)
  have shp: "shape ?lat = [1, 16, 1, 1, 2]" by simp
  have "decode_latent2rgb ?self ?lat 0
      = Inr [[[[125 / 204, 1]], [[7 / 30, 569 / 1020]], [[89 / 204, 0]]]]"
    using linear_projection_rescale [OF fam shp _ _ _ _ refl refl refl, of 0]
    by (simp add: extracted_def at5_def linear_def hunyuan_rgb_factors_def hunyuan_bias_def
        flat4_def map4_def permute_0312_def upt_rec numeral_eq_Suc)
  then show ?thesis by (simp add: flat4_def)
qed

lemma mixed_radix_step: "a < A \<Longrightarrow> b < B \<Longrightarrow> a * B + b < A * (B::nat)"
proof -
  assume "a < A" "b < B"
  then have "a * B + b < Suc a * B" by simp
  also have "\<dots> \<le> A * B" using \<open>a < A\<close> by (intro mult_le_mono1) simp
  finally show ?thesis .
qed

lemma batch0_index_bound:
  assumes "c < C" "t < F" "h < H" "w < W"
  shows "(((0 * C + c) * F + t) * H + h) * W + w < C * F * H * (W::nat)"
proof -
  have "c * F + t < C * F" using assms by (intro mixed_radix_step)
  then have "(c * F + t) * H + h < C * F * H" using assms by (intro mixed_radix_step)
  then have "((c * F + t) * H + h) * W + w < C * F * H * W" using assms by (intro mixed_radix_step)
  then show ?thesis by simp
qed

lemma extracted_batch0:
  assumes "take (C * F * H * W) xs = take (C * F * H * W) ys" "t < F"
  shows "extracted xs C F H W t = extracted ys C F H W t"
proof -
  have "at5 xs C F H W 0 c t h w = at5 ys C F H W 0 c t h w" if "c < C" "h < H" "w < W" for c h w
  proof -
    let ?i = "(((0 * C + c) * F + t) * H + h) * W + w"
    have "?i < C * F * H * W" using that assms(2) by (intro batch0_index_bound)
    then have "xs ! ?i = take (C * F * H * W) xs ! ?i" "ys ! ?i = take (C * F * H * W) ys ! ?i"
      by simp_all
    with assms(1) show ?thesis by (simp add: at5_def)
  qed
  then show ?thesis by (simp add: extracted_def)
qed

lemma stack_frames_batch0:
  assumes "shape a = shape b"
      and "take (prod_list (tl (shape a))) (vals a) = take (prod_list (tl (shape a))) (vals b)"
  shows "stack_frames rgb_factors bias a = stack_frames rgb_factors bias b"
proof (cases "\<exists>B C F H W. shape a = [B, C, F, H, W]")
  case True
  then obtain B C F H W where s: "shape a = [B, C, F, H, W]" by blast
  with assms(2) have "take (C * F * H * W) (vals a) = take (C * F * H * W) (vals b)"
    by (simp add: mult.assoc)
  then have "\<And>t. t < F \<Longrightarrow> extracted (vals a) C F H W t = extracted (vals b) C F H W t"
    by (rule extracted_batch0)
  then show ?thesis using s assms(1) by (auto simp: stack_frames_def)
next
  case False
  then show ?thesis using assms(1)
    by (auto simp: stack_frames_def split: list.splits)
qed

text \<open>
  C10: two latents of the same shape that agree on their first batch element (the first
  \<open>C * F * H * W\<close> elements in row-major order) are decoded to the same result, a
  raised error included.
\<close>

theorem decode_depends_on_first_batch_element:
  assumes "shape a = shape b"
      and "take (prod_list (tl (shape a))) (vals a) = take (prod_list (tl (shape a))) (vals b)"
  shows "decode_latent2rgb self a current_step = decode_latent2rgb self b current_step"
  using stack_frames_batch0 [OF assms]
  by (simp add: decode_latent2rgb_def split: option.splits)

theorem decode_depends_on_first_batch_element_witness:
  "shape \<lparr>shape = [2, 16, 1, 1, 1], vals = replicate 16 1 @ replicate 16 2\<rparr>
     = shape \<lparr>shape = [2, 16, 1, 1, 1], vals = replicate 16 1 @ replicate 16 3\<rparr>
   \<and> take 16 (replicate 16 1 @ replicate 16 2) = take 16 (replicate 16 1 @ replicate 16 (3::real))
   \<and> replicate 16 1 @ replicate 16 2 \<noteq> replicate 16 1 @ replicate 16 (3::real)
   \<and> decode_latent2rgb (latent2rgb_previewer \<lparr>shape = [1], vals = [0]\<rparr> [0] ''wan'' 24)
        \<lparr>shape = [2, 16, 1, 1, 1], vals = replicate 16 1 @ replicate 16 2\<rparr> 0
     = decode_latent2rgb (latent2rgb_previewer \<lparr>shape = [1], vals = [0]\<rparr> [0] ''wan'' 24)
        \<lparr>shape = [2, 16, 1, 1, 1], vals = replicate 16 1 @ replicate 16 3\<rparr> 0"
  using decode_depends_on_first_batch_element
    [of "\<lparr>shape = [2, 16, 1, 1, 1], vals = replicate 16 1 @ replicate 16 2\<rparr>"
        "\<lparr>shape = [2, 16, 1, 1, 1], vals = replicate 16 1 @ replicate 16 3\<rparr>"
        "latent2rgb_previewer \<lparr>shape = [1], vals = [0]\<rparr> [0] ''wan'' 24" 0]
  by simp

lemma decode_unlisted_family:
  "map_of model_params (model_type self) = None \<Longrightarrow>
   decode_latent2rgb self latents current_step = Inl ValueError"
  by (simp add: decode_latent2rgb_def)

lemma unlisted_family_iff:
  "map_of model_params m = None \<longleftrightarrow> m \<noteq> ''hunyuan'' \<and> m \<noteq> ''wan''"
  by (auto simp: model_params_def)

subsection \<open>The frame sink\<close>

lemma stream_encode_accept:
  assumes "\<not> rejects enc f"
  shows "\<exists>emitted pending'. stream_encode enc pending f = Inr (emitted, pending')
           \<and> emitted @ map Packet pending' = map Packet (pending @ [f])"
proof -
  let ?q = "pending @ [f]" and ?n = "length (pending @ [f]) - lookahead enc"
  have "map Packet (take ?n ?q) @ map Packet (drop ?n ?q) = map Packet ?q"
    by (simp only: map_append [symmetric] append_take_drop_id)
  with assms show ?thesis by (simp add: stream_encode_def Let_def)
qed

lemma encode_frames_accept:
  assumes "\<forall>fr \<in> set frames. \<not> rejects enc (frame_rgb24 fr)"
  shows "\<exists>pending' emitted. encode_frames enc pending c frames
            = (Inr pending', c\<lparr>packets := packets c @ emitted\<rparr>)
          \<and> emitted @ map Packet pending' = map Packet (pending @ map frame_rgb24 frames)"
  using assms
proof (induction frames arbitrary: pending c)
  case Nil
  then show ?case by simp
next
  case (Cons fr frames)
  then have "\<not> rejects enc (frame_rgb24 fr)" by simp
  from stream_encode_accept [OF this, of pending]
  obtain em p1 where se: "stream_encode enc pending (frame_rgb24 fr) = Inr (em, p1)"
    and inv1: "em @ map Packet p1 = map Packet (pending @ [frame_rgb24 fr])" by blast
  from Cons.prems have "\<forall>fr \<in> set frames. \<not> rejects enc (frame_rgb24 fr)" by simp
  from Cons.IH [OF this, of p1 "c\<lparr>packets := packets c @ em\<rparr>"]
  obtain p2 em2 where ef: "encode_frames enc p1 (c\<lparr>packets := packets c @ em\<rparr>) frames
        = (Inr p2, c\<lparr>packets := packets c @ em @ em2\<rparr>)"
    and inv2: "em2 @ map Packet p2 = map Packet (p1 @ map frame_rgb24 frames)" by auto
  have "(em @ em2) @ map Packet p2 = em @ (em2 @ map Packet p2)" by simp
  also have "\<dots> = (em @ map Packet p1) @ map Packet (map frame_rgb24 frames)"
    unfolding inv2 by simp
  also have "\<dots> = map Packet (pending @ map frame_rgb24 (fr # frames))"
    unfolding inv1 by simp
  finally have "(em @ em2) @ map Packet p2 = map Packet (pending @ map frame_rgb24 (fr # frames))" .
  with se ef show ?case by (intro exI [of _ p2] exI [of _ "em @ em2"]) simp
qed

lemma str_replace_Nil: "old \<noteq> [] \<Longrightarrow> str_replace old new [] = []"
  by (subst str_replace.simps) simp

lemma str_replace_match:
  "old \<noteq> [] \<Longrightarrow> take (length old) s = old \<Longrightarrow>
   str_replace old new s = new @ str_replace old new (drop (length old) s)"
  by (subst str_replace.simps) auto

lemma str_replace_skip:
  "old \<noteq> [] \<Longrightarrow> take (length old) (c # cs) \<noteq> old \<Longrightarrow>
   str_replace old new (c # cs) = c # str_replace old new cs"
  by (subst str_replace.simps) simp

lemma no_straddling_match:
  assumes "d \<notin> set e" "stem \<noteq> []" "take (length (d # e)) stem \<noteq> d # e"
  shows "take (length (d # e)) (stem @ d # e) \<noteq> d # e"
proof (cases "length (d # e) \<le> length stem")
  case True
  then show ?thesis using assms(3) by simp
next
  case False
  define n where "n = length stem"
  have n: "0 < n" "n < length (d # e)" using False assms(2) by (simp_all add: n_def)
  show ?thesis
  proof
    assume eq: "take (length (d # e)) (stem @ d # e) = d # e"
    have "take (length (d # e)) (stem @ d # e) ! n = d"
      using n by (simp add: n_def nth_append)
    with eq have "(d # e) ! n = d" by simp
    moreover have "(d # e) ! n \<in> set e" using n by (cases n) simp_all
    ultimately show False using assms(1) by simp
  qed
qed

lemma str_replace_suffix:
  assumes "d \<notin> set e"
  shows "str_replace (d # e) new (stem @ d # e) = str_replace (d # e) new stem @ new"
proof (induction "length stem" arbitrary: stem rule: less_induct)
  case less
  show ?case
  proof (cases stem)
    case Nil
    have "str_replace (d # e) new (d # e) = new @ str_replace (d # e) new []"
      using str_replace_match [of "d # e" "d # e" new] by simp
    then show ?thesis using Nil by (simp add: str_replace_Nil)
  next
    case (Cons c cs)
    show ?thesis
    proof (cases "take (length (d # e)) stem = d # e")
      case True
      then have "length (take (length (d # e)) stem) = length (d # e)" by simp
      then have len: "length (d # e) \<le> length stem" by simp
      then have t: "take (length (d # e)) (stem @ d # e) = d # e" using True by simp
      have "length (drop (length (d # e)) stem) < length stem" using Cons by simp
      note ih = less [OF this]
      have "str_replace (d # e) new (stem @ d # e)
          = new @ str_replace (d # e) new (drop (length (d # e)) (stem @ d # e))"
        using t by (intro str_replace_match) simp_all
      also have "drop (length (d # e)) (stem @ d # e) = drop (length (d # e)) stem @ d # e"
        using len by simp
      also have "new @ str_replace (d # e) new (drop (length (d # e)) stem @ d # e)
          = (new @ str_replace (d # e) new (drop (length (d # e)) stem)) @ new"
        unfolding ih by simp
      also have "new @ str_replace (d # e) new (drop (length (d # e)) stem)
          = str_replace (d # e) new stem"
        using True by (intro str_replace_match [symmetric]) simp_all
      finally show ?thesis .
    next
      case False
      have "take (length (d # e)) (stem @ d # e) \<noteq> d # e"
        using assms _ False by (rule no_straddling_match) (simp add: Cons)
      then have "str_replace (d # e) new ((c # cs) @ d # e)
          = c # str_replace (d # e) new (cs @ d # e)"
        unfolding Cons append_Cons by (intro str_replace_skip) simp_all
      also have "str_replace (d # e) new (cs @ d # e) = str_replace (d # e) new cs @ new"
        using less [of cs] Cons by simp
      also have "c # str_replace (d # e) new cs @ new = (c # str_replace (d # e) new cs) @ new"
        by simp
      also have "c # str_replace (d # e) new cs = str_replace (d # e) new (c # cs)"
        using False unfolding Cons by (intro str_replace_skip [symmetric]) simp_all
      finally show ?thesis by (simp add: Cons)
    qed
  qed
qed

lemma mp4_to_png:
  "str_replace ''.mp4'' ''.png'' (stem @ ''.mp4'') = str_replace ''.mp4'' ''.png'' stem @ ''.png''"
  by (rule str_replace_suffix) simp

lemma png_to_mp4:
  "str_replace ''.png'' ''.mp4'' (stem @ ''.png'') = str_replace ''.png'' ''.mp4'' stem @ ''.mp4''"
  by (rule str_replace_suffix) simp

lemma take_lookahead_step:
  "take (length q - k) q
     @ take (length (drop (length q - k) q) + i - k) (drop (length q - k) q @ rest)
   = take (length q + i - k) (q @ rest)"
proof (cases "k \<le> length q")
  case True
  then have "length q + i - k = (length q - k) + i" by simp
  then have "take (length q + i - k) (q @ rest)
      = take (length q - k) (q @ rest) @ take i (drop (length q - k) (q @ rest))"
    by (simp only: take_add)
  moreover have "length (drop (length q - k) q) + i - k = i" using True by simp
  ultimately show ?thesis by simp
next
  case False
  then show ?thesis by simp
qed

lemma stream_encode_pending:
  "stream_encode enc pending f = Inr (emitted, pending') \<Longrightarrow> length pending' \<le> lookahead enc"
  by (auto simp: stream_encode_def Let_def split: if_splits)

lemma encode_frames_first_reject:
  assumes "i < length frames" "rejects enc (frame_rgb24 (frames ! i))"
    and "\<forall>j<i. \<not> rejects enc (frame_rgb24 (frames ! j))"
    and "length pending \<le> lookahead enc"
  shows "encode_frames enc pending c frames
         = (Inl AVError,
            c\<lparr>packets := packets c
                 @ map Packet (take (length pending + i - lookahead enc)
                                 (pending @ map frame_rgb24 frames))\<rparr>)"
  using assms
proof (induction frames arbitrary: i pending c)
  case Nil
  then show ?case by simp
next
  case (Cons x xs)
  show ?case
  proof (cases i)
    case 0
    with Cons.prems have "rejects enc (frame_rgb24 x)" by simp
    moreover have "length pending + i - lookahead enc = 0" using 0 Cons.prems(4) by simp
    ultimately show ?thesis by (simp add: stream_encode_def)
  next
    case (Suc i')
    let ?q = "pending @ [frame_rgb24 x]"
    let ?n = "length ?q - lookahead enc"
    from Cons.prems(3) Suc have acc: "\<not> rejects enc (frame_rgb24 x)" by auto
    then have se: "stream_encode enc pending (frame_rgb24 x)
        = Inr (map Packet (take ?n ?q), drop ?n ?q)"
      by (simp add: stream_encode_def Let_def)
    have i': "i' < length xs" "rejects enc (frame_rgb24 (xs ! i'))"
      using Cons.prems(1,2) Suc by simp_all
    have before: "\<forall>j<i'. \<not> rejects enc (frame_rgb24 (xs ! j))"
    proof (intro allI impI)
      fix j assume "j < i'"
      then have "Suc j < i" using Suc by simp
      with Cons.prems(3) have "\<not> rejects enc (frame_rgb24 ((x # xs) ! Suc j))" by blast
      then show "\<not> rejects enc (frame_rgb24 (xs ! j))" by simp
    qed
    have len: "length (drop ?n ?q) \<le> lookahead enc" by simp
    note ih = Cons.IH [OF i' before len, of "c\<lparr>packets := packets c @ map Packet (take ?n ?q)\<rparr>"]
    have "map Packet (take ?n ?q)
          @ map Packet (take (length (drop ?n ?q) + i' - lookahead enc)
                         (drop ?n ?q @ map frame_rgb24 xs))
        = map Packet (take (length ?q + i' - lookahead enc) (?q @ map frame_rgb24 xs))"
      unfolding map_append [symmetric] take_lookahead_step ..
    moreover have "length ?q + i' = length pending + i" using Suc by simp
    moreover have "?q @ map frame_rgb24 xs = pending @ map frame_rgb24 (x # xs)" by simp
    ultimately have "map Packet (take ?n ?q)
          @ map Packet (take (length (drop ?n ?q) + i' - lookahead enc)
                         (drop ?n ?q @ map frame_rgb24 xs))
        = map Packet (take (length pending + i - lookahead enc)
                        (pending @ map frame_rgb24 (x # xs)))"
      by (simp only:)
    with se ih show ?thesis by simp
  qed
qed

lemma write_video_single:
  assumes "length frames = 1"
  shows "write_video self enc frames w h tgt wld
         = (Inr (), wld\<lparr>images := images wld
              @ [(str_replace ''.mp4'' ''.png'' tgt, frame_rgb24 (hd frames))]\<rparr>)"
proof -
  from assms have "frames \<noteq> []" by auto
  then have "frames ! 0 = hd frames" by (simp add: hd_conv_nth)
  with assms show ?thesis by (simp add: write_video_def)
qed

lemma write_video_accept:
  assumes "length frames \<noteq> 1" and "\<forall>fr \<in> set frames. \<not> rejects enc (frame_rgb24 fr)"
  shows "write_video self enc frames w h tgt wld
         = (Inr (), wld\<lparr>containers := containers wld
              @ [\<lparr>target = str_replace ''.png'' ''.mp4'' tgt, codec = ''libx264'',
                  rate = fps self, pix_fmt = ''yuv420p'', width = w, height = h,
                  packets = map (\<lambda>fr. Packet (frame_rgb24 fr)) frames,
                  closed = True\<rparr>]\<rparr>)"
proof -
  let ?opened = "\<lparr>target = str_replace ''.png'' ''.mp4'' tgt, codec = ''libx264'',
                  rate = fps self, pix_fmt = ''yuv420p'', width = w, height = h,
                  packets = [], closed = False\<rparr>"
  from encode_frames_accept [OF assms(2), of "[]" ?opened]
  obtain pending' emitted where
    ef: "encode_frames enc [] ?opened frames = (Inr pending', ?opened\<lparr>packets := packets ?opened @ emitted\<rparr>)"
    and inv: "emitted @ map Packet pending' = map Packet ([] @ map frame_rgb24 frames)"
    by blast
  from inv have "emitted @ stream_flush pending' = map (\<lambda>fr. Packet (frame_rgb24 fr)) frames"
    by (simp add: stream_flush_def comp_def)
  with ef assms(1) show ?thesis by (simp add: write_video_def Let_def)
qed

lemma write_video_first_reject:
  assumes "length frames \<noteq> 1" "i < length frames" "rejects enc (frame_rgb24 (frames ! i))"
    and "\<forall>j<i. \<not> rejects enc (frame_rgb24 (frames ! j))"
  shows "write_video self enc frames w h tgt wld
         = (Inl AVError, wld\<lparr>containers := containers wld
              @ [\<lparr>target = str_replace ''.png'' ''.mp4'' tgt, codec = ''libx264'',
                  rate = fps self, pix_fmt = ''yuv420p'', width = w, height = h,
                  packets = map (\<lambda>fr. Packet (frame_rgb24 fr)) (take (i - lookahead enc) frames),
                  closed = False\<rparr>]\<rparr>)"
proof -
  let ?opened = "\<lparr>target = str_replace ''.png'' ''.mp4'' tgt, codec = ''libx264'',
                  rate = fps self, pix_fmt = ''yuv420p'', width = w, height = h,
                  packets = [], closed = False\<rparr>"
  have "length ([] :: rgb24 list) \<le> lookahead enc" by simp
  from encode_frames_first_reject [OF assms(2-4) this, of ?opened]
  have "encode_frames enc [] ?opened frames
      = (Inl AVError,
         ?opened\<lparr>packets := map (\<lambda>fr. Packet (frame_rgb24 fr)) (take (i - lookahead enc) frames)\<rparr>)"
    by (simp add: take_map comp_def)
  with assms(1) show ?thesis by (simp add: write_video_def Let_def)
qed

lemma init_fps:
  assumes "LatentPreviewer_init load_taehv a original timesteps dev dt mtype = Inr self"
  shows "fps self = (case preview_vae a of None \<Rightarrow> quarter_fps (args_fps a)
                                        | Some path \<Rightarrow> args_fps a)"
  using assms
  by (auto simp: LatentPreviewer_init_def split: option.splits sum.splits)

lemma str_replace_no_dot:
  "CHR ''.'' \<notin> set s \<Longrightarrow> str_replace (CHR ''.'' # e) new s = s"
proof (induction s)
  case Nil
  show ?case by (simp add: str_replace_Nil)
next
  case (Cons c cs)
  then have "take (length (CHR ''.'' # e)) (c # cs) \<noteq> CHR ''.'' # e" by auto
  then have "str_replace (CHR ''.'' # e) new (c # cs) = c # str_replace (CHR ''.'' # e) new cs"
    by (intro str_replace_skip) simp_all
  with Cons show ?case by simp
qed

lemma mux_all_outcome:
  "\<exists>n. mux_all lib c ps
        = (if \<forall>p \<in> set ps. \<not> mux_raises lib p then Inr () else Inl AVError,
           c\<lparr>packets := packets c @ take n ps\<rparr>)
      \<and> ((\<forall>p \<in> set ps. \<not> mux_raises lib p) \<longrightarrow> n = length ps)"
proof (induction ps arbitrary: c)
  case Nil
  show ?case by simp
next
  case (Cons p ps)
  show ?case
  proof (cases "mux_raises lib p")
    case True
    then show ?thesis by (intro exI [of _ 0]) simp
  next
    case False
    from Cons [of "c\<lparr>packets := packets c @ [p]\<rparr>"] obtain n where
      "mux_all lib (c\<lparr>packets := packets c @ [p]\<rparr>) ps
        = (if \<forall>p \<in> set ps. \<not> mux_raises lib p then Inr () else Inl AVError,
           c\<lparr>packets := packets c @ p # take n ps\<rparr>)"
      and "(\<forall>p \<in> set ps. \<not> mux_raises lib p) \<longrightarrow> n = length ps"
      by auto
    with False show ?thesis by (intro exI [of _ "Suc n"]) simp
  qed
qed

lemma mux_all_returning: "mux_all returning c ps = (Inr (), c\<lparr>packets := packets c @ ps\<rparr>)"
  using mux_all_outcome [of returning c ps] by (auto simp: returning_def)

lemma encode_frames_raising_returning:
  "encode_frames_raising returning enc pending c frames = encode_frames enc pending c frames"
  by (induction frames arbitrary: pending c)
     (simp_all add: mux_all_returning split: sum.splits prod.splits)

lemma write_video_raising_returning:
  "write_video_raising returning self enc frames w h tgt wld = write_video self enc frames w h tgt wld"
proof -
  have "add_stream_raises returning = False" "flush_raises returning = False"
    "close_raises returning = False" "save_raises returning = (\<lambda>path. None)"
    by (simp_all add: returning_def)
  then show ?thesis
    by (simp add: write_video_raising_def write_video_def Let_def encode_frames_raising_returning
        mux_all_returning split: sum.splits prod.splits)
qed

lemma take_min_append: "take (min n (length a)) (a @ b) = take n a"
  by (cases "n \<le> length a") (simp_all add: min_def)

lemma take_length_append: "take (length a + n) (a @ b) = a @ take n b"
  by simp

lemma encode_frames_raising_reject:
  "stream_encode enc pending (frame_rgb24 x) = Inl e \<Longrightarrow>
   encode_frames_raising lib enc pending c (x # xs) = (Inl e, c)"
  by simp

lemma encode_frames_raising_mux_error:
  "stream_encode enc pending (frame_rgb24 x) = Inr (em, p1) \<Longrightarrow>
   mux_all lib c em = (Inl e, c') \<Longrightarrow>
   encode_frames_raising lib enc pending c (x # xs) = (Inl e, c')"
  by simp

lemma encode_frames_raising_next:
  "stream_encode enc pending (frame_rgb24 x) = Inr (em, p1) \<Longrightarrow>
   mux_all lib c em = (Inr u, c') \<Longrightarrow>
   encode_frames_raising lib enc pending c (x # xs) = encode_frames_raising lib enc p1 c' xs"
  by simp

lemma encode_frames_raising_outcome:
  "\<exists>n. snd (encode_frames_raising lib enc pending c frames)
         = c\<lparr>packets := packets c @ take n (map Packet (pending @ map frame_rgb24 frames))\<rparr>
      \<and> (\<forall>pending'. fst (encode_frames_raising lib enc pending c frames) = Inr pending' \<longrightarrow>
             take n (map Packet (pending @ map frame_rgb24 frames)) @ map Packet pending'
               = map Packet (pending @ map frame_rgb24 frames)
           \<and> (\<forall>fr \<in> set frames. \<not> rejects enc (frame_rgb24 fr))
           \<and> (\<forall>p \<in> set (take n (map Packet (pending @ map frame_rgb24 frames))).
                 \<not> mux_raises lib p))
      \<and> (\<forall>e. fst (encode_frames_raising lib enc pending c frames) = Inl e \<longrightarrow> e = AVError)"
proof (induction frames arbitrary: pending c)
  case Nil
  show ?case by (intro exI [of _ 0]) simp
next
  case (Cons x xs)
  define T where "T = map Packet (pending @ map frame_rgb24 (x # xs))"
  show ?case
    unfolding T_def [symmetric]
  proof (cases "rejects enc (frame_rgb24 x)")
    case True
    then have "stream_encode enc pending (frame_rgb24 x) = Inl AVError"
      by (simp add: stream_encode_def)
    then have "encode_frames_raising lib enc pending c (x # xs) = (Inl AVError, c)"
      by (rule encode_frames_raising_reject)
    then show "\<exists>n. snd (encode_frames_raising lib enc pending c (x # xs))
         = c\<lparr>packets := packets c @ take n T\<rparr>
      \<and> (\<forall>pending'. fst (encode_frames_raising lib enc pending c (x # xs)) = Inr pending' \<longrightarrow>
             take n T @ map Packet pending' = T
           \<and> (\<forall>fr \<in> set (x # xs). \<not> rejects enc (frame_rgb24 fr))
           \<and> (\<forall>p \<in> set (take n T). \<not> mux_raises lib p))
      \<and> (\<forall>e. fst (encode_frames_raising lib enc pending c (x # xs)) = Inl e \<longrightarrow> e = AVError)"
      by (intro exI [of _ 0]) simp
  next
    case False
    from stream_encode_accept [OF False, of pending] obtain em p1 where
      se: "stream_encode enc pending (frame_rgb24 x) = Inr (em, p1)"
      and q: "em @ map Packet p1 = map Packet (pending @ [frame_rgb24 x])" by blast
    define T1 where "T1 = map Packet (p1 @ map frame_rgb24 xs)"
    have "T = map Packet (pending @ [frame_rgb24 x]) @ map Packet (map frame_rgb24 xs)"
      unfolding T_def by simp
    also have "\<dots> = em @ T1" unfolding q [symmetric] T1_def by simp
    finally have T: "T = em @ T1" .
    from mux_all_outcome [of lib c em] obtain n1 where
      mx: "mux_all lib c em
          = (if \<forall>p \<in> set em. \<not> mux_raises lib p then Inr () else Inl AVError,
             c\<lparr>packets := packets c @ take n1 em\<rparr>)"
      and n1: "(\<forall>p \<in> set em. \<not> mux_raises lib p) \<longrightarrow> n1 = length em"
      by blast
    show "\<exists>n. snd (encode_frames_raising lib enc pending c (x # xs))
         = c\<lparr>packets := packets c @ take n T\<rparr>
      \<and> (\<forall>pending'. fst (encode_frames_raising lib enc pending c (x # xs)) = Inr pending' \<longrightarrow>
             take n T @ map Packet pending' = T
           \<and> (\<forall>fr \<in> set (x # xs). \<not> rejects enc (frame_rgb24 fr))
           \<and> (\<forall>p \<in> set (take n T). \<not> mux_raises lib p))
      \<and> (\<forall>e. fst (encode_frames_raising lib enc pending c (x # xs)) = Inl e \<longrightarrow> e = AVError)"
    proof (cases "\<forall>p \<in> set em. \<not> mux_raises lib p")
      case False
      have tk: "take (min n1 (length em)) T = take n1 em"
        unfolding T by (rule take_min_append)
      from mx False have "mux_all lib c em = (Inl AVError, c\<lparr>packets := packets c @ take n1 em\<rparr>)"
        by simp
      with se have "encode_frames_raising lib enc pending c (x # xs)
          = (Inl AVError, c\<lparr>packets := packets c @ take n1 em\<rparr>)"
        by (rule encode_frames_raising_mux_error)
      then have "encode_frames_raising lib enc pending c (x # xs)
          = (Inl AVError, c\<lparr>packets := packets c @ take (min n1 (length em)) T\<rparr>)"
        by (simp only: tk)
      then show ?thesis by (intro exI [of _ "min n1 (length em)"]) simp
    next
      case True
      define c1 where "c1 = c\<lparr>packets := packets c @ em\<rparr>"
      from True n1 have "n1 = length em" by blast
      with mx True have mx1: "mux_all lib c em = (Inr (), c1)" by (simp add: c1_def)
      have step: "encode_frames_raising lib enc pending c (x # xs)
          = encode_frames_raising lib enc p1 c1 xs"
        using se mx1 by (rule encode_frames_raising_next)
      from Cons [of p1 c1] obtain n2 where
        s2: "snd (encode_frames_raising lib enc p1 c1 xs) = c1\<lparr>packets := packets c1 @ take n2 T1\<rparr>"
        and ok2: "\<forall>pending'. fst (encode_frames_raising lib enc p1 c1 xs) = Inr pending' \<longrightarrow>
             take n2 T1 @ map Packet pending' = T1
           \<and> (\<forall>fr \<in> set xs. \<not> rejects enc (frame_rgb24 fr))
           \<and> (\<forall>p \<in> set (take n2 T1). \<not> mux_raises lib p)"
        and err2: "\<forall>e. fst (encode_frames_raising lib enc p1 c1 xs) = Inl e \<longrightarrow> e = AVError"
        unfolding T1_def by blast
      have tk: "take (length em + n2) T = em @ take n2 T1"
        unfolding T by (rule take_length_append)
      have a: "snd (encode_frames_raising lib enc pending c (x # xs))
             = c\<lparr>packets := packets c @ take (length em + n2) T\<rparr>"
        unfolding step s2 tk by (simp add: c1_def)
      have b: "take (length em + n2) T @ map Packet pending' = T
           \<and> (\<forall>fr \<in> set (x # xs). \<not> rejects enc (frame_rgb24 fr))
           \<and> (\<forall>p \<in> set (take (length em + n2) T). \<not> mux_raises lib p)"
        if "fst (encode_frames_raising lib enc pending c (x # xs)) = Inr pending'" for pending'
      proof -
        from that have "fst (encode_frames_raising lib enc p1 c1 xs) = Inr pending'"
          by (simp only: step)
        with ok2 have r: "take n2 T1 @ map Packet pending' = T1"
          "\<forall>fr \<in> set xs. \<not> rejects enc (frame_rgb24 fr)"
          "\<forall>p \<in> set (take n2 T1). \<not> mux_raises lib p" by blast+
        have "take (length em + n2) T @ map Packet pending'
            = em @ (take n2 T1 @ map Packet pending')"
          unfolding tk by simp
        also have "\<dots> = T" unfolding r(1) T ..
        finally have 1: "take (length em + n2) T @ map Packet pending' = T" .
        have 2: "\<forall>fr \<in> set (x # xs). \<not> rejects enc (frame_rgb24 fr)"
          using \<open>\<not> rejects enc (frame_rgb24 x)\<close> r(2) by simp
        have 3: "\<forall>p \<in> set (take (length em + n2) T). \<not> mux_raises lib p"
          unfolding tk using True r(3) by auto
        from 1 2 3 show ?thesis by blast
      qed
      have c: "\<forall>e. fst (encode_frames_raising lib enc pending c (x # xs)) = Inl e \<longrightarrow> e = AVError"
        using err2 by (simp only: step)
      from a b c show ?thesis by (intro exI [of _ "length em + n2"]) blast
    qed
  qed
qed

lemma encode_frames_raising_accept:
  assumes "\<forall>fr \<in> set frames. \<not> rejects enc (frame_rgb24 fr)"
    and "\<forall>p \<in> set (map Packet (pending @ map frame_rgb24 frames)). \<not> mux_raises lib p"
  shows "\<exists>pending'. fst (encode_frames_raising lib enc pending c frames) = Inr pending'"
  using assms
proof (induction frames arbitrary: pending c)
  case Nil
  show ?case by simp
next
  case (Cons x xs)
  from Cons.prems(1) have "\<not> rejects enc (frame_rgb24 x)" by simp
  from stream_encode_accept [OF this, of pending] obtain em p1 where
    se: "stream_encode enc pending (frame_rgb24 x) = Inr (em, p1)"
    and q: "em @ map Packet p1 = map Packet (pending @ [frame_rgb24 x])" by blast
  have "map Packet (pending @ map frame_rgb24 (x # xs))
      = map Packet (pending @ [frame_rgb24 x]) @ map Packet (map frame_rgb24 xs)" by simp
  also have "\<dots> = em @ map Packet (p1 @ map frame_rgb24 xs)"
    unfolding q [symmetric] by simp
  finally have T: "map Packet (pending @ map frame_rgb24 (x # xs))
      = em @ map Packet (p1 @ map frame_rgb24 xs)" .
  from Cons.prems(2) have all: "\<forall>p \<in> set em. \<not> mux_raises lib p"
    and rest: "\<forall>p \<in> set (map Packet (p1 @ map frame_rgb24 xs)). \<not> mux_raises lib p"
    unfolding T by auto
  from all mux_all_outcome [of lib c em]
  have mx: "mux_all lib c em = (Inr (), c\<lparr>packets := packets c @ em\<rparr>)" by auto
  from Cons.prems(1) have "\<forall>fr \<in> set xs. \<not> rejects enc (frame_rgb24 fr)" by simp
  from Cons.IH [OF this rest, of "c\<lparr>packets := packets c @ em\<rparr>"]
  show ?case unfolding encode_frames_raising_next [OF se mx] .
qed

lemma write_video_raising_outcome:
  assumes "length frames \<noteq> 1"
  shows "\<exists>n. write_video_raising lib self enc frames w h tgt wld
         = (if \<not> add_stream_raises lib
               \<and> (\<forall>fr \<in> set frames. \<not> rejects enc (frame_rgb24 fr)
                                      \<and> \<not> mux_raises lib (Packet (frame_rgb24 fr)))
               \<and> \<not> flush_raises lib \<and> \<not> close_raises lib
            then Inr () else Inl AVError,
            wld\<lparr>containers := containers wld
              @ [\<lparr>target = str_replace ''.png'' ''.mp4'' tgt, codec = ''libx264'',
                  rate = fps self, pix_fmt = ''yuv420p'', width = w, height = h,
                  packets = map (\<lambda>fr. Packet (frame_rgb24 fr)) (take n frames),
                  closed = (\<not> add_stream_raises lib
                     \<and> (\<forall>fr \<in> set frames. \<not> rejects enc (frame_rgb24 fr)
                                            \<and> \<not> mux_raises lib (Packet (frame_rgb24 fr)))
                     \<and> \<not> flush_raises lib \<and> \<not> close_raises lib)\<rparr>]\<rparr>)
      \<and> (\<not> add_stream_raises lib
           \<and> (\<forall>fr \<in> set frames. \<not> rejects enc (frame_rgb24 fr)
                                  \<and> \<not> mux_raises lib (Packet (frame_rgb24 fr)))
           \<and> \<not> flush_raises lib \<and> \<not> close_raises lib
         \<longrightarrow> n = length frames)"
proof -
  define ok where "ok \<longleftrightarrow> \<not> add_stream_raises lib
           \<and> (\<forall>fr \<in> set frames. \<not> rejects enc (frame_rgb24 fr)
                                  \<and> \<not> mux_raises lib (Packet (frame_rgb24 fr)))
           \<and> \<not> flush_raises lib \<and> \<not> close_raises lib"
  define opened where "opened = \<lparr>target = str_replace ''.png'' ''.mp4'' tgt, codec = ''libx264'',
                      rate = fps self, pix_fmt = ''yuv420p'', width = w, height = h,
                      packets = [], closed = False\<rparr>"
  define all where "all = map Packet ([] @ map frame_rgb24 frames)"
  have all_take: "take n all = map (\<lambda>fr. Packet (frame_rgb24 fr)) (take n frames)" for n
    unfolding all_def by (simp add: take_map comp_def)
  have all_set: "(\<forall>p \<in> set all. \<not> mux_raises lib p)
      \<longleftrightarrow> (\<forall>fr \<in> set frames. \<not> mux_raises lib (Packet (frame_rgb24 fr)))"
    unfolding all_def by simp
  have fin: "(r, wld\<lparr>containers := containers wld @ [opened\<lparr>packets := take n all, closed := b\<rparr>]\<rparr>)
      = (r, wld\<lparr>containers := containers wld
              @ [\<lparr>target = str_replace ''.png'' ''.mp4'' tgt, codec = ''libx264'',
                  rate = fps self, pix_fmt = ''yuv420p'', width = w, height = h,
                  packets = map (\<lambda>fr. Packet (frame_rgb24 fr)) (take n frames),
                  closed = b\<rparr>]\<rparr>)" for r n b
    unfolding all_take opened_def by simp
  have goal: "\<exists>n. write_video_raising lib self enc frames w h tgt wld
         = (if ok then Inr () else Inl AVError,
            wld\<lparr>containers := containers wld @ [opened\<lparr>packets := take n all, closed := ok\<rparr>]\<rparr>)
      \<and> (ok \<longrightarrow> n = length frames)"
  proof (cases "add_stream_raises lib")
    case True
    then have "\<not> ok" by (simp add: ok_def)
    moreover have "write_video_raising lib self enc frames w h tgt wld
        = (Inl AVError, wld\<lparr>containers := containers wld @ [opened]\<rparr>)"
      using True assms by (simp add: write_video_raising_def opened_def)
    moreover have "opened\<lparr>packets := take 0 all, closed := False\<rparr> = opened"
      by (simp add: opened_def)
    ultimately show ?thesis by (intro exI [of _ 0]) simp
  next
    case False
    note add = False
    from encode_frames_raising_outcome [of lib enc "[]" opened frames] obtain n1 where
      s1: "snd (encode_frames_raising lib enc [] opened frames) = opened\<lparr>packets := take n1 all\<rparr>"
      and ok1: "\<forall>pending'. fst (encode_frames_raising lib enc [] opened frames) = Inr pending' \<longrightarrow>
             take n1 all @ map Packet pending' = all
           \<and> (\<forall>fr \<in> set frames. \<not> rejects enc (frame_rgb24 fr))
           \<and> (\<forall>p \<in> set (take n1 all). \<not> mux_raises lib p)"
      and err1: "\<forall>e. fst (encode_frames_raising lib enc [] opened frames) = Inl e \<longrightarrow> e = AVError"
      unfolding all_def by (auto simp: opened_def)
    show ?thesis
    proof (cases "fst (encode_frames_raising lib enc [] opened frames)")
      case (Inl e)
      with err1 have e: "e = AVError" by blast
      have "\<not> ok"
      proof
        assume ok
        then have "\<forall>fr \<in> set frames. \<not> rejects enc (frame_rgb24 fr)"
          and "\<forall>p \<in> set (map Packet ([] @ map frame_rgb24 frames)). \<not> mux_raises lib p"
          by (simp_all add: ok_def)
        from encode_frames_raising_accept [OF this, of opened] Inl show False by simp
      qed
      moreover have "encode_frames_raising lib enc [] opened frames
          = (Inl AVError, opened\<lparr>packets := take n1 all\<rparr>)"
        using Inl e s1 by (simp add: prod_eq_iff)
      then have "write_video_raising lib self enc frames w h tgt wld
          = (Inl AVError, wld\<lparr>containers := containers wld @ [opened\<lparr>packets := take n1 all\<rparr>]\<rparr>)"
        using add assms by (simp add: write_video_raising_def opened_def [symmetric])
      moreover have "opened\<lparr>packets := take n1 all, closed := False\<rparr> = opened\<lparr>packets := take n1 all\<rparr>"
        by (simp add: opened_def)
      ultimately show ?thesis by (intro exI [of _ n1]) simp
    next
      case (Inr pending')
      with ok1 have inv: "take n1 all @ map Packet pending' = all"
        and acc: "\<forall>fr \<in> set frames. \<not> rejects enc (frame_rgb24 fr)"
        and em: "\<forall>p \<in> set (take n1 all). \<not> mux_raises lib p" by blast+
      define c where "c = opened\<lparr>packets := take n1 all\<rparr>"
      have ef: "encode_frames_raising lib enc [] opened frames = (Inr pending', c)"
        using Inr s1 by (simp add: prod_eq_iff c_def)
      show ?thesis
      proof (cases "flush_raises lib")
        case True
        then have "\<not> ok" by (simp add: ok_def)
        moreover have "write_video_raising lib self enc frames w h tgt wld
            = (Inl AVError, wld\<lparr>containers := containers wld @ [c]\<rparr>)"
          using add assms ef True by (simp add: write_video_raising_def opened_def [symmetric])
        moreover have "opened\<lparr>packets := take n1 all, closed := False\<rparr> = c"
          by (simp add: opened_def c_def)
        ultimately show ?thesis by (intro exI [of _ n1]) simp
      next
        case False
        note flush = False
        from mux_all_outcome [of lib c "map Packet pending'"] obtain n2 where
          mx: "mux_all lib c (map Packet pending')
              = (if \<forall>p \<in> set (map Packet pending'). \<not> mux_raises lib p
                 then Inr () else Inl AVError,
                 c\<lparr>packets := packets c @ take n2 (map Packet pending')\<rparr>)"
          and n2: "(\<forall>p \<in> set (map Packet pending'). \<not> mux_raises lib p)
                   \<longrightarrow> n2 = length (map Packet pending')"
          by blast
        have "take (length (take n1 all) + n2) (take n1 all @ map Packet pending')
            = take n1 all @ take n2 (map Packet pending')"
          by (rule take_length_append)
        then have tk: "take n1 all @ take n2 (map Packet pending')
            = take (length (take n1 all) + n2) all"
          unfolding inv by simp
        have pk: "c\<lparr>packets := packets c @ take n2 (map Packet pending')\<rparr>
            = opened\<lparr>packets := take (length (take n1 all) + n2) all\<rparr>"
          unfolding tk [symmetric] by (simp add: c_def)
        have split_all: "(\<forall>p \<in> set all. \<not> mux_raises lib p)
            \<longleftrightarrow> (\<forall>p \<in> set (map Packet pending'). \<not> mux_raises lib p)"
        proof -
          have "set all = set (take n1 all) \<union> set (map Packet pending')"
            by (subst inv [symmetric]) simp
          with em show ?thesis by auto
        qed
        show ?thesis
        proof (cases "\<forall>p \<in> set (map Packet pending'). \<not> mux_raises lib p")
          case False
          with split_all all_set have "\<not> ok" by (auto simp: ok_def)
          moreover from mx False have "mux_all lib c (stream_flush pending')
              = (Inl AVError, opened\<lparr>packets := take (length (take n1 all) + n2) all\<rparr>)"
            by (simp add: stream_flush_def pk)
          then have "write_video_raising lib self enc frames w h tgt wld
              = (Inl AVError, wld\<lparr>containers := containers wld
                   @ [opened\<lparr>packets := take (length (take n1 all) + n2) all\<rparr>]\<rparr>)"
            using add assms ef flush by (simp add: write_video_raising_def opened_def [symmetric])
          moreover have "opened\<lparr>packets := take (length (take n1 all) + n2) all, closed := False\<rparr>
              = opened\<lparr>packets := take (length (take n1 all) + n2) all\<rparr>"
            by (simp add: opened_def)
          ultimately show ?thesis by (intro exI [of _ "length (take n1 all) + n2"]) simp
        next
          case True
          with n2 have "n2 = length (map Packet pending')" by blast
          then have "take n1 all @ take n2 (map Packet pending') = all"
            using inv by simp
          also have "all = take (length frames) all" by (simp add: all_def)
          finally have full: "take n1 all @ take n2 (map Packet pending')
              = take (length frames) all" .
          have pk': "c\<lparr>packets := packets c @ take n2 (map Packet pending')\<rparr>
              = opened\<lparr>packets := take (length frames) all\<rparr>"
            unfolding full [symmetric] by (simp add: c_def)
          from mx True have mx': "mux_all lib c (stream_flush pending')
              = (Inr (), opened\<lparr>packets := take (length frames) all\<rparr>)"
            by (simp add: stream_flush_def pk')
          have okc: "ok \<longleftrightarrow> \<not> close_raises lib"
            using add flush acc True split_all all_set by (auto simp: ok_def)
          show ?thesis
          proof (cases "close_raises lib")
            case True
            with okc have "\<not> ok" by simp
            moreover have "write_video_raising lib self enc frames w h tgt wld
                = (Inl AVError, wld\<lparr>containers := containers wld
                     @ [opened\<lparr>packets := take (length frames) all\<rparr>]\<rparr>)"
              using add assms ef flush mx' True
              by (simp add: write_video_raising_def opened_def [symmetric])
            moreover have "opened\<lparr>packets := take (length frames) all, closed := False\<rparr>
                = opened\<lparr>packets := take (length frames) all\<rparr>"
              by (simp add: opened_def)
            ultimately show ?thesis by (intro exI [of _ "length frames"]) simp
          next
            case False
            with okc have ok by simp
            moreover have "write_video_raising lib self enc frames w h tgt wld
                = (Inr (), wld\<lparr>containers := containers wld
                     @ [opened\<lparr>packets := take (length frames) all, closed := True\<rparr>]\<rparr>)"
              using add assms ef flush mx' False
              by (simp add: write_video_raising_def opened_def [symmetric])
            ultimately show ?thesis by (intro exI [of _ "length frames"]) simp
          qed
        qed
      qed
    qed
  qed
  then obtain n where "write_video_raising lib self enc frames w h tgt wld
         = (if ok then Inr () else Inl AVError,
            wld\<lparr>containers := containers wld @ [opened\<lparr>packets := take n all, closed := ok\<rparr>]\<rparr>)"
    and "ok \<longrightarrow> n = length frames" by blast
  then show ?thesis
    unfolding fin ok_def by (intro exI [of _ n]) simp
qed

text \<open>
  Claim C3 (Frame Sink, \<open>write_video\<close>), as the code has it.  Let the previewer be built by
  the constructor from the configuration \<open>a\<close>.  A sequence of exactly one frame appends one still
  image to the written images and opens no container; its path is the target with \<open>.mp4\<close>
  replaced by \<open>.png\<close>, so a target ending in \<open>.mp4\<close> is written with the ending \<open>.png\<close>.
  A sequence of more than one frame, on none of which the encoder raises, writes no image and
  exactly one container, closed, holding one packet per frame in order; its path is the
  target with \<open>.png\<close> replaced by \<open>.mp4\<close>, so a target ending in \<open>.png\<close> is written with the
  ending \<open>.mp4\<close>.  (\<open>str.replace\<close> substitutes every occurrence, the final one included.)
  The rate of the container is \<open>self.fps\<close>, which the constructor sets to the configured rate
  \<open>args.fps\<close> when a learned decoder is configured and to \<open>int(args.fps / 4)\<close> otherwise.
  With libraries that may raise in their other calls as well (\<open>write_video_raising\<close>), the
  one frame is written unless \<open>Image.save\<close> raises, and then nothing is written; the video
  is written as said when none of the calls raises.
\<close>

theorem frame_sink_image_or_video:
  assumes "LatentPreviewer_init load_taehv a original timesteps dev dt mtype = Inr self"
  shows "(length frames = 1 \<longrightarrow>
      write_video self enc frames w h tgt wld
      = (Inr (), wld\<lparr>images := images wld
           @ [(str_replace ''.mp4'' ''.png'' tgt, frame_rgb24 (hd frames))]\<rparr>))
   \<and> (1 < length frames \<and> (\<forall>fr \<in> set frames. \<not> rejects enc (frame_rgb24 fr)) \<longrightarrow>
      write_video self enc frames w h tgt wld
      = (Inr (), wld\<lparr>containers := containers wld
           @ [\<lparr>target = str_replace ''.png'' ''.mp4'' tgt, codec = ''libx264'',
               rate = (case preview_vae a of None \<Rightarrow> quarter_fps (args_fps a)
                                            | Some path \<Rightarrow> args_fps a),
               pix_fmt = ''yuv420p'', width = w, height = h,
               packets = map (\<lambda>fr. Packet (frame_rgb24 fr)) frames,
               closed = True\<rparr>]\<rparr>))
   \<and> str_replace ''.mp4'' ''.png'' (stem @ ''.mp4'')
       = str_replace ''.mp4'' ''.png'' stem @ ''.png''
   \<and> str_replace ''.png'' ''.mp4'' (stem @ ''.png'')
       = str_replace ''.png'' ''.mp4'' stem @ ''.mp4''
   \<and> (CHR ''.'' \<notin> set stem \<longrightarrow>
        str_replace ''.mp4'' ''.png'' (stem @ ''.mp4'') = stem @ ''.png''
      \<and> str_replace ''.png'' ''.mp4'' (stem @ ''.png'') = stem @ ''.mp4'')
   \<and> write_video self enc frames w h tgt wld
       = write_video_raising returning self enc frames w h tgt wld
   \<and> (length frames = 1 \<longrightarrow>
      write_video_raising lib self enc frames w h tgt wld
      = (case save_raises lib (str_replace ''.mp4'' ''.png'' tgt) of
           Some e \<Rightarrow> (Inl e, wld)
         | None \<Rightarrow>
             (Inr (), wld\<lparr>images := images wld
                @ [(str_replace ''.mp4'' ''.png'' tgt, frame_rgb24 (hd frames))]\<rparr>)))
   \<and> (1 < length frames \<and> \<not> add_stream_raises lib
        \<and> (\<forall>fr \<in> set frames. \<not> rejects enc (frame_rgb24 fr)
                               \<and> \<not> mux_raises lib (Packet (frame_rgb24 fr)))
        \<and> \<not> flush_raises lib \<and> \<not> close_raises lib \<longrightarrow>
      write_video_raising lib self enc frames w h tgt wld
      = (Inr (), wld\<lparr>containers := containers wld
           @ [\<lparr>target = str_replace ''.png'' ''.mp4'' tgt, codec = ''libx264'',
               rate = (case preview_vae a of None \<Rightarrow> quarter_fps (args_fps a)
                                            | Some path \<Rightarrow> args_fps a),
               pix_fmt = ''yuv420p'', width = w, height = h,
               packets = map (\<lambda>fr. Packet (frame_rgb24 fr)) frames,
               closed = True\<rparr>]\<rparr>))"
proof (intro conjI impI)
  assume "length frames = 1"
  then show "write_video self enc frames w h tgt wld
      = (Inr (), wld\<lparr>images := images wld
           @ [(str_replace ''.mp4'' ''.png'' tgt, frame_rgb24 (hd frames))]\<rparr>)"
    by (rule write_video_single)
next
  assume a: "1 < length frames \<and> (\<forall>fr \<in> set frames. \<not> rejects enc (frame_rgb24 fr))"
  then have "length frames \<noteq> 1" by simp
  with a have "write_video self enc frames w h tgt wld
      = (Inr (), wld\<lparr>containers := containers wld
           @ [\<lparr>target = str_replace ''.png'' ''.mp4'' tgt, codec = ''libx264'',
               rate = fps self, pix_fmt = ''yuv420p'', width = w, height = h,
               packets = map (\<lambda>fr. Packet (frame_rgb24 fr)) frames,
               closed = True\<rparr>]\<rparr>)"
    by (intro write_video_accept) simp_all
  then show "write_video self enc frames w h tgt wld
      = (Inr (), wld\<lparr>containers := containers wld
           @ [\<lparr>target = str_replace ''.png'' ''.mp4'' tgt, codec = ''libx264'',
               rate = (case preview_vae a of None \<Rightarrow> quarter_fps (args_fps a)
                                            | Some path \<Rightarrow> args_fps a),
               pix_fmt = ''yuv420p'', width = w, height = h,
               packets = map (\<lambda>fr. Packet (frame_rgb24 fr)) frames,
               closed = True\<rparr>]\<rparr>)"
    by (simp only: init_fps [OF assms])
next
  show "str_replace ''.mp4'' ''.png'' (stem @ ''.mp4'')
       = str_replace ''.mp4'' ''.png'' stem @ ''.png''"
    by (rule mp4_to_png)
next
  show "str_replace ''.png'' ''.mp4'' (stem @ ''.png'')
       = str_replace ''.png'' ''.mp4'' stem @ ''.mp4''"
    by (rule png_to_mp4)
next
  assume "CHR ''.'' \<notin> set stem"
  then show "str_replace ''.mp4'' ''.png'' (stem @ ''.mp4'') = stem @ ''.png''"
    by (simp add: mp4_to_png str_replace_no_dot)
next
  assume "CHR ''.'' \<notin> set stem"
  then show "str_replace ''.png'' ''.mp4'' (stem @ ''.png'') = stem @ ''.mp4''"
    by (simp add: png_to_mp4 str_replace_no_dot)
next
  show "write_video self enc frames w h tgt wld
       = write_video_raising returning self enc frames w h tgt wld"
    by (rule write_video_raising_returning [symmetric])
next
  assume one: "length frames = 1"
  then have "frames \<noteq> []" by auto
  then have "frames ! 0 = hd frames" by (simp add: hd_conv_nth)
  with one show "write_video_raising lib self enc frames w h tgt wld
      = (case save_raises lib (str_replace ''.mp4'' ''.png'' tgt) of
           Some e \<Rightarrow> (Inl e, wld)
         | None \<Rightarrow>
             (Inr (), wld\<lparr>images := images wld
                @ [(str_replace ''.mp4'' ''.png'' tgt, frame_rgb24 (hd frames))]\<rparr>))"
    by (simp add: write_video_raising_def split: option.splits)
next
  assume a: "1 < length frames \<and> \<not> add_stream_raises lib
        \<and> (\<forall>fr \<in> set frames. \<not> rejects enc (frame_rgb24 fr)
                               \<and> \<not> mux_raises lib (Packet (frame_rgb24 fr)))
        \<and> \<not> flush_raises lib \<and> \<not> close_raises lib"
  then have "length frames \<noteq> 1" by simp
  from write_video_raising_outcome [OF this, of lib self enc w h tgt wld] a
  have "write_video_raising lib self enc frames w h tgt wld
      = (Inr (), wld\<lparr>containers := containers wld
           @ [\<lparr>target = str_replace ''.png'' ''.mp4'' tgt, codec = ''libx264'',
               rate = fps self, pix_fmt = ''yuv420p'', width = w, height = h,
               packets = map (\<lambda>fr. Packet (frame_rgb24 fr)) frames,
               closed = True\<rparr>]\<rparr>)"
    by auto
  then show "write_video_raising lib self enc frames w h tgt wld
      = (Inr (), wld\<lparr>containers := containers wld
           @ [\<lparr>target = str_replace ''.png'' ''.mp4'' tgt, codec = ''libx264'',
               rate = (case preview_vae a of None \<Rightarrow> quarter_fps (args_fps a)
                                            | Some path \<Rightarrow> args_fps a),
               pix_fmt = ''yuv420p'', width = w, height = h,
               packets = map (\<lambda>fr. Packet (frame_rgb24 fr)) frames,
               closed = True\<rparr>]\<rparr>)"
    by (simp only: init_fps [OF assms])
qed

lemma linear_projection_fixture:
  "LatentPreviewer_init load_taehv \<lparr>preview_vae = None, args_fps = r, args_device = ''cpu''\<rparr>
     original [0] ''cpu'' float32 family
   = Inr (latent2rgb_previewer original [0] family r)"
  by (simp add: LatentPreviewer_init_def latent2rgb_previewer_def timesteps_percent_of_def
      working_dtype_def)

lemma to_byte_samples:
  "to_byte (1 / 2) = 127" "to_byte (1 / 10) = 25" "to_byte (6 / 5) = 255"
  "to_byte (1 / 5) = 51" "to_byte (- 1) = 0" "to_byte (3 / 10) = 76" "to_byte 1 = 255"
  "to_byte 0 = 0"
  by (simp_all add: to_byte_def)

theorem frame_sink_image_or_video_witness:
  "write_video (latent2rgb_previewer \<lparr>shape = [1], vals = [0]\<rparr> [0] ''hunyuan'' 24)
     \<lparr>lookahead = 1, rejects = (\<lambda>f. False)\<rparr>
     [[[[1 / 2, 1 / 10]], [[6 / 5, 1 / 5]], [[- 1, 3 / 10]]]] 2 1 ''out.mp4''
     \<lparr>images = [], containers = []\<rparr>
   = (Inr (), \<lparr>images = [(''out.png'', [[[127, 255, 0], [25, 51, 76]]])], containers = []\<rparr>)
   \<and> write_video (latent2rgb_previewer \<lparr>shape = [1], vals = [0]\<rparr> [0] ''hunyuan'' 24)
     \<lparr>lookahead = 1, rejects = (\<lambda>f. False)\<rparr>
     [[[[1 / 2]], [[6 / 5]], [[- 1]]], [[[1 / 5]], [[1]], [[0]]]] 1 1 ''out.png''
     \<lparr>images = [], containers = []\<rparr>
   = (Inr (), \<lparr>images = [], containers =
        [\<lparr>target = ''out.mp4'', codec = ''libx264'', rate = 6, pix_fmt = ''yuv420p'',
          width = 1, height = 1,
          packets = [Packet [[[127, 255, 0]]], Packet [[[51, 255, 0]]]],
          closed = True\<rparr>]\<rparr>)"
proof -
  let ?self = "latent2rgb_previewer \<lparr>shape = [1], vals = [0]\<rparr> [0] ''hunyuan'' 24"
  let ?enc = "\<lparr>lookahead = 1, rejects = (\<lambda>f. False)\<rparr>"
  let ?wld = "\<lparr>images = [], containers = []\<rparr>"
  let ?one = "[[[[1 / 2, 1 / 10]], [[6 / 5, 1 / 5]], [[- 1, 3 / 10]]]] :: frames"
  let ?two = "[[[[1 / 2]], [[6 / 5]], [[- 1]]], [[[1 / 5]], [[1]], [[0]]]] :: frames"
  note built = linear_projection_fixture [of "\<lambda>p. Inl FileNotFoundError" 24
      "\<lparr>shape = [1], vals = [0]\<rparr>" "''hunyuan''"]
  have a: "write_video ?self ?enc ?one 2 1 ''out.mp4'' ?wld
      = (Inr (), \<lparr>images = [(''out.png'', [[[127, 255, 0], [25, 51, 76]]])], containers = []\<rparr>)"
    using frame_sink_image_or_video [OF built, of ?one ?enc 2 1 "''out.mp4''" ?wld "''out''"]
    by (simp add: frame_rgb24_def to_byte_samples str_replace_no_dot)
  have b: "write_video ?self ?enc ?two 1 1 ''out.png'' ?wld
      = (Inr (), \<lparr>images = [], containers =
        [\<lparr>target = ''out.mp4'', codec = ''libx264'', rate = 6, pix_fmt = ''yuv420p'',
          width = 1, height = 1,
          packets = [Packet [[[127, 255, 0]]], Packet [[[51, 255, 0]]]],
          closed = True\<rparr>]\<rparr>)"
    using frame_sink_image_or_video [OF built, of ?two ?enc 1 1 "''out.png''" ?wld "''out''"]
    by (simp add: frame_rgb24_def to_byte_samples str_replace_no_dot quarter_fps_def)
  from a b show ?thesis by (rule conjI)
qed

text \<open>
  The claim C3 as the specification states it fails in the frame rate.  The constructor,
  given the configured rate 24 and no learned decoder, builds a previewer whose video is
  written at the rate 6.  And the video holds one packet per frame only if the encoder
  raises on none: an encoder that holds back one frame and raises on the second of two
  leaves a container without packets.
\<close>

theorem video_not_at_configured_rate:
  "LatentPreviewer_init (\<lambda>p. Inl FileNotFoundError)
     \<lparr>preview_vae = None, args_fps = 24, args_device = ''cpu''\<rparr>
     \<lparr>shape = [1], vals = [0]\<rparr> [0] ''cpu'' float32 ''hunyuan''
   = Inr (latent2rgb_previewer \<lparr>shape = [1], vals = [0]\<rparr> [0] ''hunyuan'' 24)
   \<and> write_video (latent2rgb_previewer \<lparr>shape = [1], vals = [0]\<rparr> [0] ''hunyuan'' 24)
     \<lparr>lookahead = 0, rejects = (\<lambda>f. False)\<rparr>
     [[[[1 / 2]], [[6 / 5]], [[- 1]]], [[[1 / 5]], [[1]], [[0]]]] 1 1 ''out.mp4''
     \<lparr>images = [], containers = []\<rparr>
   = (Inr (), \<lparr>images = [], containers =
        [\<lparr>target = ''out.mp4'', codec = ''libx264'', rate = 6, pix_fmt = ''yuv420p'',
          width = 1, height = 1,
          packets = [Packet [[[127, 255, 0]]], Packet [[[51, 255, 0]]]],
          closed = True\<rparr>]\<rparr>)
   \<and> (6 :: int) \<noteq> 24
   \<and> write_video (latent2rgb_previewer \<lparr>shape = [1], vals = [0]\<rparr> [0] ''hunyuan'' 24)
     \<lparr>lookahead = 1, rejects = (\<lambda>f. f = [[[51, 255, 0]]])\<rparr>
     [[[[1 / 2]], [[6 / 5]], [[- 1]]], [[[1 / 5]], [[1]], [[0]]]] 1 1 ''out.mp4''
     \<lparr>images = [], containers = []\<rparr>
   = (Inl AVError, \<lparr>images = [], containers =
        [\<lparr>target = ''out.mp4'', codec = ''libx264'', rate = 6, pix_fmt = ''yuv420p'',
          width = 1, height = 1, packets = [], closed = False\<rparr>]\<rparr>)"
proof -
  have t: "str_replace ''.png'' ''.mp4'' ''out.mp4'' = ''out.mp4''"
    by (simp add: str_replace_skip str_replace_Nil)
  have "write_video (latent2rgb_previewer \<lparr>shape = [1], vals = [0]\<rparr> [0] ''hunyuan'' 24)
     \<lparr>lookahead = 0, rejects = (\<lambda>f. False)\<rparr>
     [[[[1 / 2]], [[6 / 5]], [[- 1]]], [[[1 / 5]], [[1]], [[0]]]] 1 1 ''out.mp4''
     \<lparr>images = [], containers = []\<rparr>
   = (Inr (), \<lparr>images = [], containers =
        [\<lparr>target = ''out.mp4'', codec = ''libx264'', rate = 6, pix_fmt = ''yuv420p'',
          width = 1, height = 1,
          packets = [Packet [[[127, 255, 0]]], Packet [[[51, 255, 0]]]],
          closed = True\<rparr>]\<rparr>)"
    by (subst write_video_accept)
       (simp_all add: t frame_rgb24_def to_byte_samples latent2rgb_previewer_def quarter_fps_def)
  moreover have "write_video (latent2rgb_previewer \<lparr>shape = [1], vals = [0]\<rparr> [0] ''hunyuan'' 24)
     \<lparr>lookahead = 1, rejects = (\<lambda>f. f = [[[51, 255, 0]]])\<rparr>
     [[[[1 / 2]], [[6 / 5]], [[- 1]]], [[[1 / 5]], [[1]], [[0]]]] 1 1 ''out.mp4''
     \<lparr>images = [], containers = []\<rparr>
   = (Inl AVError, \<lparr>images = [], containers =
        [\<lparr>target = ''out.mp4'', codec = ''libx264'', rate = 6, pix_fmt = ''yuv420p'',
          width = 1, height = 1, packets = [], closed = False\<rparr>]\<rparr>)"
    by (subst write_video_first_reject [where i = 1])
       (simp_all add: t frame_rgb24_def to_byte_samples latent2rgb_previewer_def quarter_fps_def)
  ultimately show ?thesis by (simp add: linear_projection_fixture)
qed

lemma flush_mux_error_leaves_container_open:
  "write_video_raising
     \<lparr>save_raises = (\<lambda>path. None), add_stream_raises = False,
      mux_raises = (\<lambda>p. p = Packet [[[51, 255, 0]]]),
      flush_raises = False, close_raises = False\<rparr>
     (latent2rgb_previewer \<lparr>shape = [1], vals = [0]\<rparr> [0] ''hunyuan'' 24)
     \<lparr>lookahead = 1, rejects = (\<lambda>f. False)\<rparr>
     [[[[1 / 2]], [[6 / 5]], [[- 1]]], [[[1 / 5]], [[1]], [[0]]]] 1 1 ''out.mp4''
     \<lparr>images = [], containers = []\<rparr>
   = (Inl AVError, \<lparr>images = [], containers =
        [\<lparr>target = ''out.mp4'', codec = ''libx264'', rate = 6, pix_fmt = ''yuv420p'',
          width = 1, height = 1, packets = [Packet [[[127, 255, 0]]]],
          closed = False\<rparr>]\<rparr>)"
proof -
  have "str_replace ''.png'' ''.mp4'' ''out.mp4'' = ''out.mp4''"
    by (simp add: str_replace_skip str_replace_Nil)
  then show ?thesis
    by (simp add: write_video_raising_def Let_def stream_encode_def stream_flush_def frame_rgb24_def
        to_byte_samples latent2rgb_previewer_def quarter_fps_def)
qed

text \<open>
  Claim C5 (streaming container), as the code has it.  \<open>write_video\<close> has no handler
  between \<open>av.open\<close> and \<open>container.close()\<close>, its last statement.  For a frame sequence
  of the video branch the one container opened is closed exactly when the call returns
  normally, which is exactly when none of the calls after \<open>av.open\<close> raises:
  \<open>add_stream\<close>, \<open>stream.encode\<close> on each frame, \<open>mux\<close> on each packet, the flush and
  \<open>close\<close>.  Otherwise the call raises and the container stays open, holding the packets
  muxed until then, which are those of the first \<open>n\<close> frames for some \<open>n\<close>.  With a library
  that raises in \<open>stream.encode\<close> only (\<open>write_video\<close>): when the encoder raises on no frame
  the container is closed with the packets of all frames, and when frame \<open>i\<close> is the first
  on which it raises the container is left open with the packets of the first
  \<open>i - lookahead\<close> frames (none if the encoder holds back \<open>i\<close> frames or more).
\<close>

theorem container_closed_only_on_normal_exit:
  assumes "length frames \<noteq> 1"
  shows "(\<exists>n. write_video_raising lib self enc frames w h tgt wld
           = (if \<not> add_stream_raises lib
                 \<and> (\<forall>fr \<in> set frames. \<not> rejects enc (frame_rgb24 fr)
                                        \<and> \<not> mux_raises lib (Packet (frame_rgb24 fr)))
                 \<and> \<not> flush_raises lib \<and> \<not> close_raises lib
              then Inr () else Inl AVError,
              wld\<lparr>containers := containers wld
                @ [\<lparr>target = str_replace ''.png'' ''.mp4'' tgt, codec = ''libx264'',
                    rate = fps self, pix_fmt = ''yuv420p'', width = w, height = h,
                    packets = map (\<lambda>fr. Packet (frame_rgb24 fr)) (take n frames),
                    closed = (\<not> add_stream_raises lib
                       \<and> (\<forall>fr \<in> set frames. \<not> rejects enc (frame_rgb24 fr)
                                              \<and> \<not> mux_raises lib (Packet (frame_rgb24 fr)))
                       \<and> \<not> flush_raises lib \<and> \<not> close_raises lib)\<rparr>]\<rparr>)
        \<and> (\<not> add_stream_raises lib
             \<and> (\<forall>fr \<in> set frames. \<not> rejects enc (frame_rgb24 fr)
                                    \<and> \<not> mux_raises lib (Packet (frame_rgb24 fr)))
             \<and> \<not> flush_raises lib \<and> \<not> close_raises lib
           \<longrightarrow> n = length frames))
       \<and> write_video self enc frames w h tgt wld
         = write_video_raising returning self enc frames w h tgt wld
       \<and> ((\<forall>fr \<in> set frames. \<not> rejects enc (frame_rgb24 fr)) \<longrightarrow>
          write_video self enc frames w h tgt wld
          = (Inr (), wld\<lparr>containers := containers wld
               @ [\<lparr>target = str_replace ''.png'' ''.mp4'' tgt, codec = ''libx264'',
                   rate = fps self, pix_fmt = ''yuv420p'', width = w, height = h,
                   packets = map (\<lambda>fr. Packet (frame_rgb24 fr)) frames,
                   closed = True\<rparr>]\<rparr>))
       \<and> (\<forall>i < length frames.
            rejects enc (frame_rgb24 (frames ! i))
            \<and> (\<forall>j<i. \<not> rejects enc (frame_rgb24 (frames ! j))) \<longrightarrow>
            write_video self enc frames w h tgt wld
            = (Inl AVError, wld\<lparr>containers := containers wld
                 @ [\<lparr>target = str_replace ''.png'' ''.mp4'' tgt, codec = ''libx264'',
                     rate = fps self, pix_fmt = ''yuv420p'', width = w, height = h,
                     packets = map (\<lambda>fr. Packet (frame_rgb24 fr))
                                 (take (i - lookahead enc) frames),
                     closed = False\<rparr>]\<rparr>))"
proof (intro conjI impI allI)
  from assms show "\<exists>n. write_video_raising lib self enc frames w h tgt wld
           = (if \<not> add_stream_raises lib
                 \<and> (\<forall>fr \<in> set frames. \<not> rejects enc (frame_rgb24 fr)
                                        \<and> \<not> mux_raises lib (Packet (frame_rgb24 fr)))
                 \<and> \<not> flush_raises lib \<and> \<not> close_raises lib
              then Inr () else Inl AVError,
              wld\<lparr>containers := containers wld
                @ [\<lparr>target = str_replace ''.png'' ''.mp4'' tgt, codec = ''libx264'',
                    rate = fps self, pix_fmt = ''yuv420p'', width = w, height = h,
                    packets = map (\<lambda>fr. Packet (frame_rgb24 fr)) (take n frames),
                    closed = (\<not> add_stream_raises lib
                       \<and> (\<forall>fr \<in> set frames. \<not> rejects enc (frame_rgb24 fr)
                                              \<and> \<not> mux_raises lib (Packet (frame_rgb24 fr)))
                       \<and> \<not> flush_raises lib \<and> \<not> close_raises lib)\<rparr>]\<rparr>)
        \<and> (\<not> add_stream_raises lib
             \<and> (\<forall>fr \<in> set frames. \<not> rejects enc (frame_rgb24 fr)
                                    \<and> \<not> mux_raises lib (Packet (frame_rgb24 fr)))
             \<and> \<not> flush_raises lib \<and> \<not> close_raises lib
           \<longrightarrow> n = length frames)"
    by (rule write_video_raising_outcome)
next
  show "write_video self enc frames w h tgt wld
         = write_video_raising returning self enc frames w h tgt wld"
    by (rule write_video_raising_returning [symmetric])
next
  assume "\<forall>fr \<in> set frames. \<not> rejects enc (frame_rgb24 fr)"
  with assms show "write_video self enc frames w h tgt wld
          = (Inr (), wld\<lparr>containers := containers wld
               @ [\<lparr>target = str_replace ''.png'' ''.mp4'' tgt, codec = ''libx264'',
                   rate = fps self, pix_fmt = ''yuv420p'', width = w, height = h,
                   packets = map (\<lambda>fr. Packet (frame_rgb24 fr)) frames,
                   closed = True\<rparr>]\<rparr>)"
    by (rule write_video_accept)
next
  fix i
  assume "i < length frames"
    and "rejects enc (frame_rgb24 (frames ! i))
         \<and> (\<forall>j<i. \<not> rejects enc (frame_rgb24 (frames ! j)))"
  with assms show "write_video self enc frames w h tgt wld
            = (Inl AVError, wld\<lparr>containers := containers wld
                 @ [\<lparr>target = str_replace ''.png'' ''.mp4'' tgt, codec = ''libx264'',
                     rate = fps self, pix_fmt = ''yuv420p'', width = w, height = h,
                     packets = map (\<lambda>fr. Packet (frame_rgb24 fr))
                                 (take (i - lookahead enc) frames),
                     closed = False\<rparr>]\<rparr>)"
    by (intro write_video_first_reject) simp_all
qed

theorem container_closed_only_on_normal_exit_witness:
  "write_video (latent2rgb_previewer \<lparr>shape = [1], vals = [0]\<rparr> [0] ''hunyuan'' 24)
     \<lparr>lookahead = 1, rejects = (\<lambda>f. False)\<rparr>
     [[[[1 / 2]], [[6 / 5]], [[- 1]]], [[[1 / 5]], [[1]], [[0]]]] 1 1 ''out.png''
     \<lparr>images = [], containers = []\<rparr>
   = (Inr (), \<lparr>images = [], containers =
        [\<lparr>target = ''out.mp4'', codec = ''libx264'', rate = 6, pix_fmt = ''yuv420p'',
          width = 1, height = 1,
          packets = [Packet [[[127, 255, 0]]], Packet [[[51, 255, 0]]]],
          closed = True\<rparr>]\<rparr>)
   \<and> write_video (latent2rgb_previewer \<lparr>shape = [1], vals = [0]\<rparr> [0] ''hunyuan'' 24)
     \<lparr>lookahead = 1, rejects = (\<lambda>f. f = [[[76, 25, 0]]])\<rparr>
     [[[[1 / 2]], [[6 / 5]], [[- 1]]], [[[1 / 5]], [[1]], [[0]]], [[[3 / 10]], [[1 / 10]], [[0]]]]
     1 1 ''out.png'' \<lparr>images = [], containers = []\<rparr>
   = (Inl AVError, \<lparr>images = [], containers =
        [\<lparr>target = ''out.mp4'', codec = ''libx264'', rate = 6, pix_fmt = ''yuv420p'',
          width = 1, height = 1, packets = [Packet [[[127, 255, 0]]]],
          closed = False\<rparr>]\<rparr>)"
proof -
  let ?self = "latent2rgb_previewer \<lparr>shape = [1], vals = [0]\<rparr> [0] ''hunyuan'' 24"
  let ?wld = "\<lparr>images = [], containers = []\<rparr>"
  let ?two = "[[[[1 / 2]], [[6 / 5]], [[- 1]]], [[[1 / 5]], [[1]], [[0]]]] :: frames"
  let ?three = "[[[[1 / 2]], [[6 / 5]], [[- 1]]], [[[1 / 5]], [[1]], [[0]]],
                 [[[3 / 10]], [[1 / 10]], [[0]]]] :: frames"
  have two: "length ?two \<noteq> 1" and three: "length ?three \<noteq> 1" by simp_all
  have a: "write_video ?self \<lparr>lookahead = 1, rejects = (\<lambda>f. False)\<rparr> ?two 1 1 ''out.png'' ?wld
   = (Inr (), \<lparr>images = [], containers =
        [\<lparr>target = ''out.mp4'', codec = ''libx264'', rate = 6, pix_fmt = ''yuv420p'',
          width = 1, height = 1,
          packets = [Packet [[[127, 255, 0]]], Packet [[[51, 255, 0]]]],
          closed = True\<rparr>]\<rparr>)"
    using container_closed_only_on_normal_exit [OF two,
        of returning ?self "\<lparr>lookahead = 1, rejects = (\<lambda>f. False)\<rparr>" 1 1 "''out.png''" ?wld,
        THEN conjunct2, THEN conjunct2, THEN conjunct1]
    by (simp add: frame_rgb24_def to_byte_samples str_replace_no_dot
        png_to_mp4 [of "''out''", simplified] latent2rgb_previewer_def quarter_fps_def)
  have b: "write_video ?self \<lparr>lookahead = 1, rejects = (\<lambda>f. f = [[[76, 25, 0]]])\<rparr> ?three
     1 1 ''out.png'' ?wld
   = (Inl AVError, \<lparr>images = [], containers =
        [\<lparr>target = ''out.mp4'', codec = ''libx264'', rate = 6, pix_fmt = ''yuv420p'',
          width = 1, height = 1, packets = [Packet [[[127, 255, 0]]]],
          closed = False\<rparr>]\<rparr>)"
    using container_closed_only_on_normal_exit [OF three,
        of returning ?self "\<lparr>lookahead = 1, rejects = (\<lambda>f. f = [[[76, 25, 0]]])\<rparr>" 1 1
          "''out.png''" ?wld,
        THEN conjunct2, THEN conjunct2, THEN conjunct2, rule_format, of 2]
    by (simp add: frame_rgb24_def to_byte_samples str_replace_no_dot
        png_to_mp4 [of "''out''", simplified] latent2rgb_previewer_def quarter_fps_def
        less_2_cases_iff)
  from a b show ?thesis by (rule conjI)
qed

theorem container_left_open_on_encoding_error:
  "write_video (latent2rgb_previewer \<lparr>shape = [1], vals = [0]\<rparr> [0] ''hunyuan'' 24)
     \<lparr>lookahead = 0, rejects = (\<lambda>f. f = [[[51, 255, 0]]])\<rparr>
     [[[[1 / 2]], [[6 / 5]], [[- 1]]], [[[1 / 5]], [[1]], [[0]]]] 1 1 ''out.mp4''
     \<lparr>images = [], containers = []\<rparr>
   = (Inl AVError, \<lparr>images = [], containers =
        [\<lparr>target = ''out.mp4'', codec = ''libx264'', rate = 6, pix_fmt = ''yuv420p'',
          width = 1, height = 1, packets = [Packet [[[127, 255, 0]]]],
          closed = False\<rparr>]\<rparr>)"
proof -
  have "str_replace ''.png'' ''.mp4'' ''out.mp4'' = ''out.mp4''"
    by (simp add: str_replace_skip str_replace_Nil)
  then show ?thesis
    by (simp add: write_video_def Let_def stream_encode_def frame_rgb24_def to_byte_samples
        latent2rgb_previewer_def quarter_fps_def)
qed

section \<open>Properties of the preview\<close>

subsection \<open>Constant images under bicubic upscaling\<close>

lemma cubic_coefficients_sum:
  "cubic_coefficients t = [a, b, c, d] \<Longrightarrow> a + b + c + d = 1"
  by (auto simp: cubic_coefficients_def cubic_convolution1_def cubic_convolution2_def Let_def
      algebra_simps)

lemma cubic_coefficients_shape: "\<exists>a b c d. cubic_coefficients t = [a, b, c, d]"
  by (simp add: cubic_coefficients_def Let_def)

lemma cubic_interp1d_constant: "cubic_interp1d (map (\<lambda>i. v) [0..<4]) t = v"
proof -
  obtain a b c d where k: "cubic_coefficients t = [a, b, c, d]"
    using cubic_coefficients_shape by blast
  have "map (\<lambda>i. v) [0..<4] = [v, v, v, v]" by (simp add: upt_rec numeral_eq_Suc)
  then have "cubic_interp1d (map (\<lambda>i. v) [0..<4]) t = v * (a + b + c + d)"
    by (simp add: cubic_interp1d_def k algebra_simps)
  with cubic_coefficients_sum [OF k] show ?thesis by simp
qed

lemma clamp_index_less: "0 < n \<Longrightarrow> clamp_index i n < n"
  by (auto simp: clamp_index_def)

lemma upsample_bicubic2d_constant:
  assumes "0 < H" "0 < W"
  shows "upsample_bicubic2d s (replicate H (replicate W v))
         = replicate (H * s) (replicate (W * s) v)"
proof -
  let ?img = "replicate H (replicate W v)"
  have hd: "length (hd ?img) = W" using assms by (cases H) simp_all
  have px: "?img ! clamp_index i H ! clamp_index j W = v" for i j
    using assms by (simp add: clamp_index_less)
  have "upsample_bicubic2d s ?img
      = map (\<lambda>output_y. map (\<lambda>output_x. v) [0..<W * s]) [0..<H * s]"
    unfolding upsample_bicubic2d_def Let_def hd length_replicate px cubic_interp1d_constant ..
  then show ?thesis by (simp add: map_replicate_const)
qed

lemma interpolate_constant_channels:
  assumes "0 < H" "0 < W" "0 < s"
  shows "interpolate (Frames4 (replicate n (map (\<lambda>v. replicate H (replicate W v)) (c # cs)))) s
         = Inr (Frames4 (replicate n
                  (map (\<lambda>v. replicate (H * s) (replicate (W * s) v)) (c # cs))))"
proof -
  have "hd (replicate H (replicate W c)) \<noteq> []" using assms by (cases H) simp_all
  moreover have "replicate H (replicate W c) \<noteq> []" using assms by simp
  ultimately show ?thesis
    using assms by (cases n) (simp_all add: interpolate_def upsample_bicubic2d_constant)
qed

subsection \<open>A constant snapshot through the normalizer and the decoder\<close>

lemma map_constant:
  "(\<And>x. x \<in> set xs \<Longrightarrow> f x = c) \<Longrightarrow> map f xs = replicate (length xs) c"
  by (induction xs) simp_all

lemma preview_frames_latent2rgb:
  assumes "mode self = Latent2rgb" "model_type self \<noteq> ''wan''" "scale_factor self = Some s"
    and "subtract_original_and_normalize self noisy_latents current_step
         = Inr (Finite denoisy_latents)"
    and "decode_latent2rgb self denoisy_latents current_step = Inr x"
    and "interpolate (Frames4 x) s = Inr (Frames4 upscaled)"
  shows "preview_frames self noisy_latents current_step
         = Inr (upscaled, length (hd (hd (hd upscaled))), length (hd (hd upscaled)))"
  by (simp add: preview_frames_def decoder_def assms)

lemma preview_frames_decode_error:
  assumes "mode self = Latent2rgb" "model_type self \<noteq> ''wan''"
    and "subtract_original_and_normalize self noisy_latents current_step
         = Inr (Finite denoisy_latents)"
    and "decode_latent2rgb self denoisy_latents current_step = Inl e"
  shows "preview_frames self noisy_latents current_step = Inl e"
  by (simp add: preview_frames_def decoder_def assms)

lemma mean_replicate: "0 < n \<Longrightarrow> mean (replicate n c) = c"
  by (simp add: mean_def sum_list_replicate)

lemma normalize_constant:
  assumes "prod_list s = n" "n \<noteq> 1"
  shows "subtract_original_and_normalize
           (latent2rgb_previewer \<lparr>shape = s, vals = replicate n 0\<rparr> [0] family r)
           \<lparr>shape = s, vals = replicate n c\<rparr> 0
         = Inr (Finite \<lparr>shape = s, vals = replicate n 0\<rparr>)"
proof (cases "n = 0")
  case True
  then show ?thesis
    using assms
    by (subst normalize_result) (simp_all add: latent2rgb_previewer_def wf_tensor_def)
next
  case False
  then have "mean (replicate n c) = c" by (simp add: mean_replicate)
  then show ?thesis
    using assms
    by (subst normalize_result) (simp_all add: latent2rgb_previewer_def wf_tensor_def)
qed

lemma extracted_constant:
  assumes "t < F"
  shows "extracted (replicate (C * F * H * W) v) C F H W t
         = replicate H (replicate W (replicate C v))"
proof -
  have "at5 (replicate (C * F * H * W) v) C F H W 0 c t h w = v"
    if "c < C" "h < H" "w < W" for c h w
    using batch0_index_bound [OF that(1) assms that(2,3)] by (simp add: at5_def)
  then have "map (\<lambda>c. at5 (replicate (C * F * H * W) v) C F H W 0 c t h w) [0..<C]
      = replicate C v" if "h < H" "w < W" for h w
    using that by (subst map_constant [where c = v]) simp_all
  then have "map (\<lambda>w. map (\<lambda>c. at5 (replicate (C * F * H * W) v) C F H W 0 c t h w) [0..<C])
               [0..<W] = replicate W (replicate C v)" if "h < H" for h
    using that by (subst map_constant [where c = "replicate C v"]) simp_all
  then have "map (\<lambda>h. map (\<lambda>w. map (\<lambda>c. at5 (replicate (C * F * H * W) v) C F H W 0 c t h w)
               [0..<C]) [0..<W]) [0..<H] = replicate H (replicate W (replicate C v))"
    by (subst map_constant [where c = "replicate W (replicate C v)"]) simp_all
  then show ?thesis by (simp add: extracted_def)
qed

lemma linear_zero:
  "length weight = length bias \<Longrightarrow> linear (replicate n 0) weight bias = bias"
proof (induction weight bias rule: list_induct2)
  case Nil
  show ?case by (simp add: linear_def)
next
  case (Cons row weight b bias)
  have "sum_list (map2 (\<lambda>a k. a * k) (replicate n 0) row) = 0"
    by (induction row arbitrary: n) (simp, case_tac n, simp_all)
  with Cons show ?case by (simp add: linear_def)
qed

lemma stack_frames_zero:
  assumes "0 < F" "0 < H" "0 < W" "map_of model_params family = Some (rgb_factors, bias)"
  shows "stack_frames rgb_factors bias
           \<lparr>shape = [1, 16, F, H, W], vals = replicate (16 * F * H * W) 0\<rparr>
         = Inr (replicate F (replicate H (replicate W bias)))"
proof -
  from model_params_cases [OF assms(4)]
  have len: "length rgb_factors = 16" "length (transpose rgb_factors) = length bias" by simp_all
  have "map (\<lambda>t. map (map (\<lambda>px. linear px (transpose rgb_factors) bias))
                   (extracted (replicate (16 * F * H * W) 0) 16 F H W t)) [0..<F]
      = map (\<lambda>t. replicate H (replicate W bias)) [0..<F]"
    by (rule map_cong) (simp_all add: extracted_constant linear_zero len)
  then show ?thesis using assms len by (simp add: stack_frames_def map_replicate_const)
qed

lemma flat4_replicate:
  assumes "0 < F" "0 < H" "0 < W"
  shows "set (flat4 (replicate F (replicate H (replicate W px)))) = set px"
  using assms by (auto simp: flat4_def)

lemma map4_replicate:
  "map4 f (replicate F (replicate H (replicate W px)))
   = replicate F (replicate H (replicate W (map f px)))"
  by (simp add: map4_def)

lemma permute_0312_replicate:
  "permute_0312 (replicate F (replicate H (replicate W [r, g, b])))
   = replicate F (map (\<lambda>v. replicate H (replicate W v)) [r, g, b])"
  by (simp add: permute_0312_def upt_rec numeral_eq_Suc)

lemma decode_hunyuan_zero:
  assumes "0 < F" "0 < H" "0 < W"
  shows "decode_latent2rgb (latent2rgb_previewer original schedule ''hunyuan'' r)
           \<lparr>shape = [1, 16, F, H, W], vals = replicate (16 * F * H * W) 0\<rparr> current_step
         = Inr (replicate F (map (\<lambda>v. replicate H (replicate W v)) [1, 569 / 1020, 0]))"
proof -
  have fam: "map_of model_params ''hunyuan'' = Some (hunyuan_rgb_factors, hunyuan_bias)"
    by (simp add: model_params_def)
  let ?x = "replicate F (replicate H (replicate W hunyuan_bias))"
  have s: "set (flat4 ?x) = {0.0259, -0.0192, -0.0761}"
    using assms by (simp add: flat4_replicate hunyuan_bias_def)
  have "normalize_01 ?x = replicate F (replicate H (replicate W [1, 569 / 1020, 0]))"
    unfolding normalize_01_def s map4_replicate by (simp add: hunyuan_bias_def)
  moreover have "model_type (latent2rgb_previewer original schedule ''hunyuan'' r) = ''hunyuan''"
    by (simp add: latent2rgb_previewer_def)
  moreover note stack_frames_zero [OF assms fam]
  ultimately show ?thesis
    by (simp add: decode_latent2rgb_def fam permute_0312_replicate del: One_nat_def)
qed

lemma frame_rgb24_constant:
  "frame_rgb24 (map (\<lambda>v. replicate H (replicate W v)) [r, g, b])
   = replicate H (replicate W [to_byte r, to_byte g, to_byte b])"
proof -
  let ?frame = "[replicate H (replicate W r), replicate H (replicate W g),
                 replicate H (replicate W b)]"
  have "map (\<lambda>w. map (\<lambda>ch. to_byte (ch ! h ! w)) ?frame)
            [0..<length (replicate H (replicate W r) ! h)]
      = replicate W [to_byte r, to_byte g, to_byte b]" if "h < H" for h
    using that by (subst map_constant [where c = "[to_byte r, to_byte g, to_byte b]"]) simp_all
  then have "map (\<lambda>h. map (\<lambda>w. map (\<lambda>ch. to_byte (ch ! h ! w)) ?frame)
                       [0..<length (replicate H (replicate W r) ! h)]) [0..<H]
      = replicate H (replicate W [to_byte r, to_byte g, to_byte b])"
    by (subst map_constant [where c = "replicate W [to_byte r, to_byte g, to_byte b]"]) simp_all
  then show ?thesis by (simp add: frame_rgb24_def)
qed

lemma preview_frames_constant:
  "preview_frames
     (latent2rgb_previewer \<lparr>shape = [1, 16, 2, 8, 8], vals = replicate 2048 0\<rparr> [0] ''hunyuan'' r)
     \<lparr>shape = [1, 16, 2, 8, 8], vals = replicate 2048 c\<rparr> 0
   = Inr (replicate 2 (map (\<lambda>v. replicate 64 (replicate 64 v)) [1, 569 / 1020, 0]), 64, 64)"
proof -
  let ?self = "latent2rgb_previewer \<lparr>shape = [1, 16, 2, 8, 8], vals = replicate 2048 0\<rparr> [0]
                 ''hunyuan'' r"
  have n: "subtract_original_and_normalize ?self
             \<lparr>shape = [1, 16, 2, 8, 8], vals = replicate 2048 c\<rparr> 0
           = Inr (Finite \<lparr>shape = [1, 16, 2, 8, 8], vals = replicate 2048 0\<rparr>)"
    by (rule normalize_constant) simp_all
  have d: "decode_latent2rgb ?self
             \<lparr>shape = [1, 16, 2, 8, 8], vals = replicate 2048 0\<rparr> 0
           = Inr (replicate 2 (map (\<lambda>v. replicate 8 (replicate 8 v)) [1, 569 / 1020, 0]))"
    using decode_hunyuan_zero [of 2 8 8 "\<lparr>shape = [1, 16, 2, 8, 8], vals = replicate 2048 0\<rparr>"
        "[0]" r 0] by simp
  have i: "interpolate (Frames4 (replicate 2
                (map (\<lambda>v. replicate 8 (replicate 8 v)) [1, 569 / 1020, 0]))) 8
           = Inr (Frames4 (replicate 2
                (map (\<lambda>v. replicate 64 (replicate 64 v)) [1, 569 / 1020, 0])))"
    using interpolate_constant_channels [of 8 8 8 2 1 "[569 / 1020, 0]"] by simp
  have m: "mode ?self = Latent2rgb" "model_type ?self \<noteq> ''wan''" "scale_factor ?self = Some 8"
    by (simp_all add: latent2rgb_previewer_def)
  from preview_frames_latent2rgb [OF m n d i] show ?thesis by simp
qed

lemma four_axis_latent_rejected:
  "preview_frames
     (latent2rgb_previewer \<lparr>shape = [2, 16, 8, 8], vals = replicate 2048 0\<rparr> [0] ''hunyuan'' r)
     \<lparr>shape = [2, 16, 8, 8], vals = replicate 2048 c\<rparr> 0
   = Inl IndexError"
proof -
  let ?self = "latent2rgb_previewer \<lparr>shape = [2, 16, 8, 8], vals = replicate 2048 0\<rparr> [0]
                 ''hunyuan'' r"
  have n: "subtract_original_and_normalize ?self
             \<lparr>shape = [2, 16, 8, 8], vals = replicate 2048 c\<rparr> 0
           = Inr (Finite \<lparr>shape = [2, 16, 8, 8], vals = replicate 2048 0\<rparr>)"
    by (rule normalize_constant) simp_all
  have m: "mode ?self = Latent2rgb" "model_type ?self \<noteq> ''wan''"
    by (simp_all add: latent2rgb_previewer_def)
  have d: "decode_latent2rgb ?self \<lparr>shape = [2, 16, 8, 8], vals = replicate 2048 0\<rparr> 0
           = Inl IndexError"
    by (simp add: decode_latent2rgb_def latent2rgb_previewer_def model_params_def
        stack_frames_def)
  from preview_frames_decode_error [OF m n d] show ?thesis .
qed

lemma frames_before_channels_rejected:
  "preview_frames
     (latent2rgb_previewer \<lparr>shape = [1, 2, 16, 8, 8], vals = replicate 2048 0\<rparr> [0] ''hunyuan'' r)
     \<lparr>shape = [1, 2, 16, 8, 8], vals = replicate 2048 c\<rparr> 0
   = Inl RuntimeError"
proof -
  let ?self = "latent2rgb_previewer \<lparr>shape = [1, 2, 16, 8, 8], vals = replicate 2048 0\<rparr> [0]
                 ''hunyuan'' r"
  have n: "subtract_original_and_normalize ?self
             \<lparr>shape = [1, 2, 16, 8, 8], vals = replicate 2048 c\<rparr> 0
           = Inr (Finite \<lparr>shape = [1, 2, 16, 8, 8], vals = replicate 2048 0\<rparr>)"
    by (rule normalize_constant) simp_all
  have m: "mode ?self = Latent2rgb" "model_type ?self \<noteq> ''wan''"
    by (simp_all add: latent2rgb_previewer_def)
  have d: "decode_latent2rgb ?self \<lparr>shape = [1, 2, 16, 8, 8], vals = replicate 2048 0\<rparr> 0
           = Inl RuntimeError"
    by (simp add: decode_latent2rgb_def latent2rgb_previewer_def model_params_def
        stack_frames_def hunyuan_rgb_factors_def)
  from preview_frames_decode_error [OF m n d] show ?thesis .
qed
subsection \<open>One-element latents\<close>

text \<open>
  On a tensor of \<open>n\<close> axes of extent 1 the linear-projection decoder raises whatever the
  element is, and it raises what \<open>decoder\<close> gives for the NaN tensor of that rank.
\<close>

lemma stack_frames_rank_0: "shape x = [] \<Longrightarrow> stack_frames rgb_factors bias x = Inl IndexError"
  by (simp add: stack_frames_def)
lemma stack_frames_rank_1: "shape x = [a] \<Longrightarrow> stack_frames rgb_factors bias x = Inl IndexError"
  by (simp add: stack_frames_def)
lemma stack_frames_rank_2: "shape x = [a, b] \<Longrightarrow> stack_frames rgb_factors bias x = Inl IndexError"
  by (simp add: stack_frames_def)
lemma stack_frames_rank_3: "shape x = [a, b, 1] \<Longrightarrow> stack_frames rgb_factors bias x = Inl IndexError"
  by (simp add: stack_frames_def)
lemma stack_frames_rank_4: "shape x = [a, b, 1, d] \<Longrightarrow> stack_frames rgb_factors bias x = Inl IndexError"
  by (simp add: stack_frames_def)
lemma stack_frames_rank_5: "shape x = [1, 1, 1, 1, 1] \<Longrightarrow> length rgb_factors = 16 \<Longrightarrow>
  stack_frames rgb_factors bias x = Inl RuntimeError"
  by (simp add: stack_frames_def)
lemma stack_frames_rank_above_5: "shape x = 1 # b # 1 # d # e # f # rest \<Longrightarrow>
  stack_frames rgb_factors bias x = Inl RuntimeError"
  by (simp add: stack_frames_def)

lemma replicate_ranks:
  "replicate n (1::nat) = [] \<or> replicate n (1::nat) = [1] \<or> replicate n (1::nat) = [1, 1]
   \<or> replicate n (1::nat) = [1, 1, 1] \<or> replicate n (1::nat) = [1, 1, 1, 1]
   \<or> replicate n (1::nat) = [1, 1, 1, 1, 1]
   \<or> (\<exists>rest. replicate n (1::nat) = 1 # 1 # 1 # 1 # 1 # 1 # rest)"
proof (cases n)
  case 0 then show ?thesis by simp
next
  case (Suc n1)
  show ?thesis
  proof (cases n1)
    case 0 with Suc show ?thesis by simp
  next
    case (Suc n2)
    note s2 = \<open>n = Suc n1\<close> Suc
    show ?thesis
    proof (cases n2)
      case 0 with s2 show ?thesis by simp
    next
      case (Suc n3)
      note s3 = s2 Suc
      show ?thesis
      proof (cases n3)
        case 0 with s3 show ?thesis by simp
      next
        case (Suc n4)
        note s4 = s3 Suc
        show ?thesis
        proof (cases n4)
          case 0 with s4 show ?thesis by simp
        next
          case (Suc n5)
          note s5 = s4 Suc
          show ?thesis
          proof (cases n5)
            case 0 with s5 show ?thesis by simp
          next
            case (Suc n6)
            with s5 show ?thesis by simp
          qed
        qed
      qed
    qed
  qed
qed

lemma stack_frames_one_element:
  assumes "shape x = replicate n 1" "length rgb_factors = 16"
  shows "stack_frames rgb_factors bias x = Inl (if n < 5 then IndexError else RuntimeError)"
proof -
  have len: "length (shape x) = n" using assms(1) by simp
  from replicate_ranks [of n] show ?thesis
    unfolding assms(1) [symmetric]
  proof (elim disjE exE)
    assume r: "shape x = []"
    with len have "n = 0" by simp
    with stack_frames_rank_0 [OF r] show ?thesis by simp
  next
    assume r: "shape x = [1]"
    with len have "n = 1" by simp
    with stack_frames_rank_1 [OF r] show ?thesis by simp
  next
    assume r: "shape x = [1, 1]"
    with len have "n = 2" by simp
    with stack_frames_rank_2 [OF r] show ?thesis by simp
  next
    assume r: "shape x = [1, 1, 1]"
    with len have "n = 3" by simp
    with stack_frames_rank_3 [OF r] show ?thesis by simp
  next
    assume r: "shape x = [1, 1, 1, 1]"
    with len have "n = 4" by simp
    with stack_frames_rank_4 [OF r] show ?thesis by simp
  next
    assume r: "shape x = [1, 1, 1, 1, 1]"
    with len have "n = 5" by simp
    with stack_frames_rank_5 [OF r assms(2)] show ?thesis by simp
  next
    fix rest
    assume r: "shape x = 1 # 1 # 1 # 1 # 1 # 1 # rest"
    with len have "\<not> n < 5" by auto
    with stack_frames_rank_above_5 [OF r] show ?thesis by simp
  qed
qed

lemma decode_one_element:
  assumes "shape x = replicate n 1" "mode self = Latent2rgb"
  shows "decoder self (Finite x) current_step = decoder self (OneNaN n) current_step"
proof (cases "map_of model_params (model_type self)")
  case None
  with assms(2) show ?thesis by (simp add: decoder_def decode_latent2rgb_def)
next
  case (Some p)
  obtain rgb_factors bias where p: "p = (rgb_factors, bias)" by (cases p)
  from model_params_cases [OF Some [unfolded p]] have "length rgb_factors = 16" by simp
  from stack_frames_one_element [OF assms(1) this, of bias] Some p assms(2)
  show ?thesis by (simp add: decoder_def decode_latent2rgb_def)
qed

lemma preview_error_writes_nothing:
  "preview_frames self noisy_latents current_step = Inl e \<Longrightarrow>
   preview self enc noisy_latents current_step wld = (Inl e, wld)"
  by (simp add: preview_def)

lemma preview_frames_unlisted_family:
  assumes "map_of model_params (model_type self) = None" "mode self = Latent2rgb"
  shows "\<exists>e. preview_frames self noisy_latents current_step = Inl e
           \<and> (e = ValueError
              \<or> subtract_original_and_normalize self noisy_latents current_step = Inl e)"
proof -
  from assms(1) have nw: "model_type self \<noteq> ''wan''" by (simp add: unlisted_family_iff)
  show ?thesis
  proof (cases "subtract_original_and_normalize self noisy_latents current_step")
    case (Inl e)
    with nw show ?thesis by (simp add: preview_frames_def)
  next
    case (Inr denoisy_latents)
    show ?thesis
    proof (cases denoisy_latents)
      case (Finite x)
      from preview_frames_decode_error [OF assms(2) nw Inr [unfolded Finite]
          decode_unlisted_family [OF assms(1)]]
      show ?thesis by simp
    next
      case (OneNaN n)
      with Inr nw assms show ?thesis by (simp add: preview_frames_def decoder_def)
    qed
  qed
qed

text \<open>
  Claim C4 (unlisted model family).  When the family of the previewer has no entry in
  \<open>model_params\<close>, \<open>decode_latent2rgb\<close> raises \<open>ValueError\<close> for every latent and step.  A
  \<open>preview\<close> in linear-projection mode then ends with an exception and leaves the written
  images and containers as they were; the exception is that \<open>ValueError\<close> whenever the
  normalizer, which runs before the decoder, has returned.
\<close>

theorem unlisted_family_configuration_error:
  assumes "map_of model_params (model_type self) = None" and "mode self = Latent2rgb"
  shows "decode_latent2rgb self latents current_step = Inl ValueError
       \<and> (\<exists>e. preview self enc noisy_latents current_step wld = (Inl e, wld))
       \<and> (\<forall>denoisy_latents.
            subtract_original_and_normalize self noisy_latents current_step = Inr denoisy_latents
            \<longrightarrow> preview self enc noisy_latents current_step wld = (Inl ValueError, wld))"
proof (intro conjI allI impI)
  show "decode_latent2rgb self latents current_step = Inl ValueError"
    using assms(1) by (rule decode_unlisted_family)
next
  from preview_frames_unlisted_family [OF assms]
  obtain e where "preview_frames self noisy_latents current_step = Inl e" by blast
  then have "preview self enc noisy_latents current_step wld = (Inl e, wld)"
    by (rule preview_error_writes_nothing)
  then show "\<exists>e. preview self enc noisy_latents current_step wld = (Inl e, wld)" ..
next
  fix denoisy_latents
  assume n: "subtract_original_and_normalize self noisy_latents current_step
             = Inr denoisy_latents"
  from preview_frames_unlisted_family [OF assms, of noisy_latents current_step] n
  have "preview_frames self noisy_latents current_step = Inl ValueError" by auto
  then show "preview self enc noisy_latents current_step wld = (Inl ValueError, wld)"
    by (rule preview_error_writes_nothing)
qed

theorem unlisted_family_configuration_error_witness:
  "map_of model_params ''flux'' = None
   \<and> decode_latent2rgb
       (latent2rgb_previewer \<lparr>shape = [1, 16, 1, 1, 1], vals = replicate 16 0\<rparr> [0] ''flux'' 24)
       \<lparr>shape = [1, 16, 1, 1, 1], vals = replicate 16 0\<rparr> 0
     = Inl ValueError
   \<and> preview
       (latent2rgb_previewer \<lparr>shape = [1, 16, 1, 1, 1], vals = replicate 16 0\<rparr> [0] ''flux'' 24)
       \<lparr>lookahead = 0, rejects = (\<lambda>f. False)\<rparr>
       \<lparr>shape = [1, 16, 1, 1, 1], vals = replicate 16 (1 / 2)\<rparr> 0
       \<lparr>images = [], containers = []\<rparr>
     = (Inl ValueError, \<lparr>images = [], containers = []\<rparr>)"
proof -
  let ?self = "latent2rgb_previewer \<lparr>shape = [1, 16, 1, 1, 1], vals = replicate 16 0\<rparr> [0]
                 ''flux'' 24"
  have fam: "map_of model_params (model_type ?self) = None"
    by (simp add: latent2rgb_previewer_def model_params_def)
  have m: "mode ?self = Latent2rgb" by (simp add: latent2rgb_previewer_def)
  have n: "subtract_original_and_normalize ?self
             \<lparr>shape = [1, 16, 1, 1, 1], vals = replicate 16 (1 / 2)\<rparr> 0
           = Inr (Finite \<lparr>shape = [1, 16, 1, 1, 1], vals = replicate 16 0\<rparr>)"
    by (rule normalize_constant) simp_all
  from unlisted_family_configuration_error [OF fam m,
      of "\<lparr>shape = [1, 16, 1, 1, 1], vals = replicate 16 0\<rparr>" 0
         "\<lparr>lookahead = 0, rejects = (\<lambda>f. False)\<rparr>"
         "\<lparr>shape = [1, 16, 1, 1, 1], vals = replicate 16 (1 / 2)\<rparr>"
         "\<lparr>images = [], containers = []\<rparr>"] n
  show ?thesis by (simp add: model_params_def)
qed

lemma to_byte_examples: "to_byte 1 = 255" "to_byte (569 / 1020) = 142" "to_byte 0 = 0"
  by (simp_all add: to_byte_def)

lemma default_target:
  "str_replace ''.png'' ''.mp4'' ''./latent_preview.mp4'' = ''./latent_preview.mp4''"
  by (simp add: str_replace_skip str_replace_Nil)

lemma preview_constant:
  assumes "\<not> rejects enc (replicate 64 (replicate 64 [255, 142, 0]))"
  shows "preview
     (latent2rgb_previewer \<lparr>shape = [1, 16, 2, 8, 8], vals = replicate 2048 0\<rparr> [0] ''hunyuan'' r)
     enc \<lparr>shape = [1, 16, 2, 8, 8], vals = replicate 2048 c\<rparr> 0 wld
   = (Inr (), wld\<lparr>containers := containers wld
        @ [\<lparr>target = ''./latent_preview.mp4'', codec = ''libx264'', rate = quarter_fps r,
            pix_fmt = ''yuv420p'', width = 64, height = 64,
            packets = replicate 2 (Packet (replicate 64 (replicate 64 [255, 142, 0]))),
            closed = True\<rparr>]\<rparr>)"
proof -
  let ?self = "latent2rgb_previewer \<lparr>shape = [1, 16, 2, 8, 8], vals = replicate 2048 0\<rparr> [0]
                 ''hunyuan'' r"
  let ?frame = "[replicate 64 (replicate 64 1), replicate 64 (replicate 64 (569 / 1020)),
                 replicate 64 (replicate 64 (0 :: real))]"
  have b: "frame_rgb24 ?frame = replicate 64 (replicate 64 [255, 142, 0])"
    using frame_rgb24_constant [of 64 64 1 "569 / 1020" 0]
    by (simp only: list.map to_byte_examples)
  have "length (replicate 2 ?frame) \<noteq> 1" by simp
  moreover have "\<forall>fr \<in> set (replicate 2 ?frame). \<not> rejects enc (frame_rgb24 fr)"
    using assms by (simp add: b)
  ultimately have "write_video ?self enc (replicate 2 ?frame) 64 64 ''./latent_preview.mp4'' wld
      = (Inr (), wld\<lparr>containers := containers wld
           @ [\<lparr>target = str_replace ''.png'' ''.mp4'' ''./latent_preview.mp4'',
               codec = ''libx264'', rate = fps ?self, pix_fmt = ''yuv420p'',
               width = 64, height = 64,
               packets = map (\<lambda>fr. Packet (frame_rgb24 fr)) (replicate 2 ?frame),
               closed = True\<rparr>]\<rparr>)"
    by (rule write_video_accept)
  moreover have "fps ?self = quarter_fps r" by (simp add: latent2rgb_previewer_def)
  moreover have "map (\<lambda>fr. Packet (frame_rgb24 fr)) (replicate 2 ?frame)
      = replicate 2 (Packet (replicate 64 (replicate 64 [255, 142, 0])))"
    by (simp only: map_replicate b)
  ultimately show ?thesis
    by (simp only: preview_def preview_frames_constant default_target sum.case prod.case
        list.map)
qed

text \<open>
  Claim C6 (round trip of a constant snapshot).  The snapshot has one batch element, 16
  channels, 2 frames and 8 by 8 positions (axes in this order), every element equal to \<open>c\<close>;
  the reference is zero and the noise fraction at step 0 is 0; the family is \<open>hunyuan\<close>.
  The normalizer returns zeros, every decoded pixel is the bias of the family, and the
  rescale maps the three colours to 1, 569/1020 and 0.  After the 8-fold bicubic upscaling
  \<open>preview\<close> holds 2 frames of 3 channels of 64 by 64 values, each channel constant, and
  \<open>w_up = h_up = 64\<close>; an encoder that accepts the frame receives it twice, and the one
  container written holds two packets at the rate \<open>int(fps / 4)\<close> and is closed.
\<close>

theorem constant_latent_round_trip:
  assumes "\<not> rejects enc (replicate 64 (replicate 64 [255, 142, 0]))"
  shows "preview_frames
     (latent2rgb_previewer \<lparr>shape = [1, 16, 2, 8, 8], vals = replicate 2048 0\<rparr> [0] ''hunyuan'' r)
     \<lparr>shape = [1, 16, 2, 8, 8], vals = replicate 2048 c\<rparr> 0
   = Inr (replicate 2 [replicate 64 (replicate 64 1), replicate 64 (replicate 64 (569 / 1020)),
                       replicate 64 (replicate 64 0)], 64, 64)
   \<and> preview
     (latent2rgb_previewer \<lparr>shape = [1, 16, 2, 8, 8], vals = replicate 2048 0\<rparr> [0] ''hunyuan'' r)
     enc \<lparr>shape = [1, 16, 2, 8, 8], vals = replicate 2048 c\<rparr> 0 wld
   = (Inr (), wld\<lparr>containers := containers wld
        @ [\<lparr>target = ''./latent_preview.mp4'', codec = ''libx264'', rate = quarter_fps r,
            pix_fmt = ''yuv420p'', width = 64, height = 64,
            packets = replicate 2 (Packet (replicate 64 (replicate 64 [255, 142, 0]))),
            closed = True\<rparr>]\<rparr>)"
proof
  show "preview_frames
     (latent2rgb_previewer \<lparr>shape = [1, 16, 2, 8, 8], vals = replicate 2048 0\<rparr> [0] ''hunyuan'' r)
     \<lparr>shape = [1, 16, 2, 8, 8], vals = replicate 2048 c\<rparr> 0
   = Inr (replicate 2 [replicate 64 (replicate 64 1), replicate 64 (replicate 64 (569 / 1020)),
                       replicate 64 (replicate 64 0)], 64, 64)"
    by (simp only: preview_frames_constant list.map)
next
  from assms show "preview
     (latent2rgb_previewer \<lparr>shape = [1, 16, 2, 8, 8], vals = replicate 2048 0\<rparr> [0] ''hunyuan'' r)
     enc \<lparr>shape = [1, 16, 2, 8, 8], vals = replicate 2048 c\<rparr> 0 wld
   = (Inr (), wld\<lparr>containers := containers wld
        @ [\<lparr>target = ''./latent_preview.mp4'', codec = ''libx264'', rate = quarter_fps r,
            pix_fmt = ''yuv420p'', width = 64, height = 64,
            packets = replicate 2 (Packet (replicate 64 (replicate 64 [255, 142, 0]))),
            closed = True\<rparr>]\<rparr>)"
    by (rule preview_constant)
qed

theorem constant_latent_round_trip_witness:
  "preview
     (latent2rgb_previewer \<lparr>shape = [1, 16, 2, 8, 8], vals = replicate 2048 0\<rparr> [0] ''hunyuan'' 30)
     \<lparr>lookahead = 1, rejects = (\<lambda>f. False)\<rparr>
     \<lparr>shape = [1, 16, 2, 8, 8], vals = replicate 2048 (1 / 2)\<rparr> 0
     \<lparr>images = [], containers = []\<rparr>
   = (Inr (), \<lparr>images = [], containers =
        [\<lparr>target = ''./latent_preview.mp4'', codec = ''libx264'', rate = 7,
          pix_fmt = ''yuv420p'', width = 64, height = 64,
          packets = replicate 2 (Packet (replicate 64 (replicate 64 [255, 142, 0]))),
          closed = True\<rparr>]\<rparr>)"
  using constant_latent_round_trip [of "\<lparr>lookahead = 1, rejects = (\<lambda>f. False)\<rparr>" 30 "1 / 2"
      "\<lparr>images = [], containers = []\<rparr>"]
  by (simp add: quarter_fps_def)

text \<open>
  The claim C6 as the specification states it fails in one point: the values of a frame
  are not all equal.  In the first frame the first channel is 1 and the third is 0.
\<close>

theorem constant_latent_channels_differ:
  "preview_frames
     (latent2rgb_previewer \<lparr>shape = [1, 16, 2, 8, 8], vals = replicate 2048 0\<rparr> [0] ''hunyuan'' 24)
     \<lparr>shape = [1, 16, 2, 8, 8], vals = replicate 2048 (1 / 2)\<rparr> 0
   = Inr (replicate 2 [replicate 64 (replicate 64 1), replicate 64 (replicate 64 (569 / 1020)),
                       replicate 64 (replicate 64 0)], 64, 64)
   \<and> replicate 2 [replicate 64 (replicate 64 1), replicate 64 (replicate 64 (569 / 1020)),
                  replicate 64 (replicate 64 (0 :: real))] ! 0 ! 0 ! 0 ! 0 = 1
   \<and> replicate 2 [replicate 64 (replicate 64 1), replicate 64 (replicate 64 (569 / 1020)),
                  replicate 64 (replicate 64 (0 :: real))] ! 0 ! 2 ! 0 ! 0 = 0"
proof -
  have "preview_frames
     (latent2rgb_previewer \<lparr>shape = [1, 16, 2, 8, 8], vals = replicate 2048 0\<rparr> [0] ''hunyuan'' 24)
     \<lparr>shape = [1, 16, 2, 8, 8], vals = replicate 2048 (1 / 2)\<rparr> 0
   = Inr (replicate 2 [replicate 64 (replicate 64 1), replicate 64 (replicate 64 (569 / 1020)),
                       replicate 64 (replicate 64 0)], 64, 64)"
    by (simp only: preview_frames_constant list.map)
  then show ?thesis by simp
qed

section \<open>Properties of \<open>wildcard_replace\<close>\<close>

subsection \<open>Splitting and joining\<close>







subsection \<open>Normalised absolute paths\<close>











subsection \<open>The file that is opened\<close>





end
